theory Spec2Isabelle
  imports Complex_Main "HOL-Library.Word" "HOL-Library.Log_Nat"
begin

section \<open>Machine arithmetic used by video2ascii.cpp\<close>

text \<open>
  Pixel channels are \<open>uchar\<close> (8-bit words). Every computation on them in the source is
  done after integral promotion to \<open>int\<close>; the values involved stay far below the 32-bit
  limit, so \<open>int\<close> is modelled by HOL's integers. C++ integer division truncates
  towards zero, and \<open>std::clamp(v, lo, hi)\<close> returns \<open>lo\<close> if \<open>v < lo\<close>, \<open>hi\<close> if
  \<open>hi < v\<close>, and \<open>v\<close> otherwise.
\<close>

type_synonym uchar = "8 word"

definition c_div :: "int \<Rightarrow> int \<Rightarrow> int" where
  "c_div a b = sgn a * sgn b * (\<bar>a\<bar> div \<bar>b\<bar>)"

definition clamp :: "int \<Rightarrow> int \<Rightarrow> int \<Rightarrow> int" where
  "clamp v lo hi = (if v < lo then lo else if hi < v then hi else v)"

section \<open>Global constants\<close>

definition asciiChars :: string where
  "asciiChars = [CHR ''@'', CHR ''%'', CHR ''#'', CHR ''*'', CHR ''+'',
                 CHR ''='', CHR ''-'', CHR '':'', CHR ''.'', CHR '' '']"

definition asciiLen :: int where
  "asciiLen = int (length asciiChars)"

definition MIN_HEIGHT :: int where "MIN_HEIGHT = 20"
definition MIN_WIDTH :: int where "MIN_WIDTH = 40"
definition MAX_HEIGHT :: int where "MAX_HEIGHT = 120"
definition MAX_WIDTH :: int where "MAX_WIDTH = 200"
definition DEFAULT_FRAMERATE :: int where "DEFAULT_FRAMERATE = 30"

text \<open>The enumerator \<open>ColorMode::None\<close> is called \<open>None_mode\<close> here, \<open>None\<close> being a
  constructor of HOL's option type.\<close>

datatype ColorMode = None_mode | ANSI | Full

definition ESC :: char where "ESC = CHR 0x1B"

definition BLACK :: string where "BLACK = ESC # ''[30m''"
definition RED :: string where "RED = ESC # ''[31m''"
definition GREEN :: string where "GREEN = ESC # ''[32m''"
definition BLUE :: string where "BLUE = ESC # ''[34m''"
definition WHITE :: string where "WHITE = ESC # ''[37m''"
definition BRIGHT_BLACK :: string where "BRIGHT_BLACK = ESC # ''[90m''"
definition BRIGHT_RED :: string where "BRIGHT_RED = ESC # ''[91m''"
definition BRIGHT_GREEN :: string where "BRIGHT_GREEN = ESC # ''[92m''"
definition BRIGHT_BLUE :: string where "BRIGHT_BLUE = ESC # ''[94m''"
definition BRIGHT_WHITE :: string where "BRIGHT_WHITE = ESC # ''[97m''"
definition TRUECOLOR :: string where "TRUECOLOR = ESC # ''[38;2;''"
definition RESET :: string where "RESET = ESC # ''[0m''"

definition DARK_THRESHOLD :: int where "DARK_THRESHOLD = 30"
definition GRAYSCALE_VARIANCE :: int where "GRAYSCALE_VARIANCE = 20"
definition VERY_BRIGHT :: int where "VERY_BRIGHT = 200"
definition BRIGHT :: int where "BRIGHT = 120"
definition MEDIUM_BRIGHT :: int where "MEDIUM_BRIGHT = 128"

lemmas color_defs =
  ESC_def BLACK_def RED_def GREEN_def BLUE_def WHITE_def BRIGHT_BLACK_def BRIGHT_RED_def
  BRIGHT_GREEN_def BRIGHT_BLUE_def BRIGHT_WHITE_def TRUECOLOR_def RESET_def

lemmas threshold_defs =
  DARK_THRESHOLD_def GRAYSCALE_VARIANCE_def VERY_BRIGHT_def BRIGHT_def MEDIUM_BRIGHT_def

record Options =
  videoPath :: string
  colorMode :: ColorMode
  targetHeight :: int
  targetWidth :: int
  framerate :: int

section \<open>Per-pixel primitives\<close>

text \<open>
  \<open>brightnessToAscii\<close> indexes the glyph table without a bounds check. Reading outside
  the table is undefined behaviour, which the model reports as \<open>None\<close>. (With 32-bit
  \<open>int\<close> the product \<open>brightness * 9\<close> can only overflow for arguments whose index is
  outside the table anyway, so \<open>None\<close> covers that case as well.)
\<close>

definition brightnessToAscii :: "int \<Rightarrow> char option" where
  "brightnessToAscii brightness =
     (let index = c_div (brightness * (asciiLen - 1)) 255
      in if 0 \<le> index \<and> index < asciiLen then Some (asciiChars ! nat index) else None)"

definition rgbToAnsiColor :: "int \<Rightarrow> int \<Rightarrow> int \<Rightarrow> int \<Rightarrow> string" where
  "rgbToAnsiColor r g b brightness =
     (if brightness < DARK_THRESHOLD then BLACK
      else let maxC = max r (max g b); minC = min r (min g b) in
        if maxC - minC < GRAYSCALE_VARIANCE then
          (if brightness > VERY_BRIGHT then BRIGHT_WHITE
           else if brightness > BRIGHT then WHITE
           else BRIGHT_BLACK)
        else let bright = (brightness > MEDIUM_BRIGHT) in
          if r > g \<and> r > b then (if bright then BRIGHT_RED else RED)
          else if g > r \<and> g > b then (if bright then BRIGHT_GREEN else GREEN)
          else if b > r \<and> b > g then (if bright then BRIGHT_BLUE else BLUE)
          else WHITE)"

text \<open>\<open>std::to_string\<close> on an \<open>int\<close>: decimal digits, most significant first, with a
  leading minus sign for negative values.\<close>

definition digit_char :: "nat \<Rightarrow> char" where
  "digit_char d = char_of (48 + d)"

fun to_string_nat :: "nat \<Rightarrow> string" where
  "to_string_nat n =
     (if n < 10 then [digit_char n] else to_string_nat (n div 10) @ [digit_char (n mod 10)])"

declare to_string_nat.simps [simp del]

definition to_string :: "int \<Rightarrow> string" where
  "to_string i = (if i < 0 then CHR ''-'' # to_string_nat (nat (- i)) else to_string_nat (nat i))"

definition rgbToTrueColor :: "int \<Rightarrow> int \<Rightarrow> int \<Rightarrow> int \<Rightarrow> string option" where
  "rgbToTrueColor r g b brightness =
     (case brightnessToAscii brightness of
        None \<Rightarrow> None
      | Some c \<Rightarrow>
          Some (TRUECOLOR @ to_string r @ [CHR '';''] @ to_string g @ [CHR '';''] @ to_string b
                @ [CHR ''m''] @ [c] @ RESET))"

section \<open>Rendering one frame\<close>

text \<open>
  A \<open>cv::Mat\<close> is modelled by the list of its rows. \<open>Vec3b\<close> is a pixel of three byte
  channels in OpenCV's order: \<open>px[0]\<close> blue, \<open>px[1]\<close> green, \<open>px[2]\<close> red. A row pointer
  is \<open>Some row\<close> when it points to a row of the matrix and \<open>None\<close> when it is null or
  lies outside the matrix; the source only computes such a pointer, and the error is
  reading through it, which makes the whole rendering \<open>None\<close>.
\<close>

type_synonym Vec3b = "uchar \<times> uchar \<times> uchar"
type_synonym 'a Mat = "'a list list"

definition ptr :: "'a Mat \<Rightarrow> int \<Rightarrow> 'a list option" where
  "ptr m y = (if 0 \<le> y \<and> y < int (length m) then Some (m ! nat y) else None)"

definition deref :: "'a list option \<Rightarrow> int \<Rightarrow> 'a option" where
  "deref rowPtr x =
     (case rowPtr of
        None \<Rightarrow> None
      | Some row \<Rightarrow> if 0 \<le> x \<and> x < int (length row) then Some (row ! nat x) else None)"

text \<open>The three branches of the body of the inner loop of \<open>loadFrames\<close>: the text that one
  pixel appends to \<open>frameStream\<close>.\<close>

definition ansiPixel :: "Vec3b \<Rightarrow> string option" where
  "ansiPixel px =
     (let b = uint (fst px); g = uint (fst (snd px)); r = uint (snd (snd px));
          brightness = clamp (c_div (r + g + b) 3) 0 255
      in case brightnessToAscii brightness of
           None \<Rightarrow> None
         | Some c \<Rightarrow> Some (rgbToAnsiColor r g b brightness @ [c] @ RESET))"

definition fullPixel :: "Vec3b \<Rightarrow> string option" where
  "fullPixel px =
     (let b = uint (fst px); g = uint (fst (snd px)); r = uint (snd (snd px));
          brightness = clamp (c_div (r + g + b) 3) 0 255
      in rgbToTrueColor r g b brightness)"

definition grayPixel :: "uchar \<Rightarrow> string option" where
  "grayPixel px =
     (let brightness = clamp (uint px) 0 255;
          index = c_div (brightness * (asciiLen - 1)) 255
      in if 0 \<le> index \<and> index < asciiLen then Some [asciiChars ! nat index] else None)"

definition pixelStep :: "ColorMode \<Rightarrow> Vec3b list option \<Rightarrow> uchar list option \<Rightarrow> int \<Rightarrow> string option"
  where
  "pixelStep mode colorRowPtr grayRowPtr x =
     (if mode = ANSI then
        (case deref colorRowPtr x of None \<Rightarrow> None | Some px \<Rightarrow> ansiPixel px)
      else if mode = Full then
        (case deref colorRowPtr x of None \<Rightarrow> None | Some px \<Rightarrow> fullPixel px)
      else
        (case deref grayRowPtr x of None \<Rightarrow> None | Some px \<Rightarrow> grayPixel px))"

text \<open>The loop \<open>for (int x = 0; x < width; x++)\<close>, from the current \<open>x\<close>.\<close>

function rowLoop ::
  "ColorMode \<Rightarrow> Vec3b list option \<Rightarrow> uchar list option \<Rightarrow> int \<Rightarrow> int \<Rightarrow> string \<Rightarrow> string option"
  where
  "rowLoop mode colorRowPtr grayRowPtr width x frameStream =
     (if x < width then
        (case pixelStep mode colorRowPtr grayRowPtr x of
           None \<Rightarrow> None
         | Some s \<Rightarrow> rowLoop mode colorRowPtr grayRowPtr width (x + 1) (frameStream @ s))
      else Some frameStream)"
  by pat_completeness auto
termination
  by (relation "measure (\<lambda>(mode, colorRowPtr, grayRowPtr, width, x, frameStream). nat (width - x))")
    auto

declare rowLoop.simps [simp del]

definition newline :: char where
  "newline = CHR 0x0A"

text \<open>The loop \<open>for (int y = 0; y < height; y++)\<close>, from the current \<open>y\<close>.\<close>

function frameLoop ::
  "ColorMode \<Rightarrow> Vec3b Mat \<Rightarrow> uchar Mat \<Rightarrow> int \<Rightarrow> int \<Rightarrow> int \<Rightarrow> string \<Rightarrow> string option"
  where
  "frameLoop mode resizedColor resized height width y frameStream =
     (if y < height then
        (let colorRowPtr = (if mode \<noteq> None_mode then ptr resizedColor y else None);
             grayRowPtr = (if mode = None_mode then ptr resized y else None)
         in case rowLoop mode colorRowPtr grayRowPtr width 0 frameStream of
              None \<Rightarrow> None
            | Some row_done \<Rightarrow>
                frameLoop mode resizedColor resized height width (y + 1) (row_done @ [newline]))
      else Some frameStream)"
  by pat_completeness auto
termination
  by (relation "measure (\<lambda>(mode, resizedColor, resized, height, width, y, frameStream).
                           nat (height - y))")
    auto

declare frameLoop.simps [simp del]

section \<open>Rendering the whole video\<close>

text \<open>
  The OpenCV operations that \<open>loadFrames\<close> calls are outside the program; they are
  parameters of the model. \<open>resize_color src width height\<close> and
  \<open>resize_gray src width height\<close> stand for \<open>cv::resize\<close> to \<open>cv::Size(width, height)\<close>
  with \<open>INTER_AREA\<close>, and \<open>cvtColor_gray\<close> for \<open>cv::cvtColor\<close> with \<open>COLOR_BGR2GRAY\<close>.
  The video capture is the list of the frames it still has to deliver; \<open>cap.read\<close>
  fails when the list is empty. The four matrices declared before the loop are reused
  by every iteration, so they are a state that the loop threads through.
\<close>

record OpenCV =
  cvtColor_gray :: "Vec3b Mat \<Rightarrow> uchar Mat"
  resize_gray :: "uchar Mat \<Rightarrow> int \<Rightarrow> int \<Rightarrow> uchar Mat"
  resize_color :: "Vec3b Mat \<Rightarrow> int \<Rightarrow> int \<Rightarrow> Vec3b Mat"

record Mats =
  frame :: "Vec3b Mat"
  gray :: "uchar Mat"
  resized :: "uchar Mat"
  resizedColor :: "Vec3b Mat"

definition empty_Mats :: Mats where
  "empty_Mats = \<lparr>frame = [], gray = [], resized = [], resizedColor = []\<rparr>"

fun loadFrames ::
  "OpenCV \<Rightarrow> Vec3b Mat list \<Rightarrow> Mats \<Rightarrow> string list \<Rightarrow> Options \<Rightarrow> int \<Rightarrow> int
     \<Rightarrow> (Mats \<times> string list) option"
  where
  "loadFrames cv [] mats asciiFrames opts height width = Some (mats, asciiFrames)"
| "loadFrames cv (next_frame # cap) mats asciiFrames opts height width =
     (let mats1 = mats\<lparr>frame := next_frame\<rparr>;
          mats2 =
            (if colorMode opts = ANSI \<or> colorMode opts = Full then
               mats1\<lparr>resizedColor := resize_color cv (frame mats1) width height\<rparr>
             else
               (let mats_gray = mats1\<lparr>gray := cvtColor_gray cv (frame mats1)\<rparr>
                in mats_gray\<lparr>resized := resize_gray cv (gray mats_gray) width height\<rparr>))
      in case frameLoop (colorMode opts) (resizedColor mats2) (resized mats2) height width 0 [] of
           None \<Rightarrow> None
         | Some frameStr \<Rightarrow> loadFrames cv cap mats2 (asciiFrames @ [frameStr]) opts height width)"

section \<open>Double-precision arithmetic\<close>

text \<open>
  \<open>double\<close> is IEEE-754 binary64. A finite double is modelled by the rational number
  it denotes; infinities and NaN are lumped into \<open>NonFinite\<close>. Every arithmetic
  operation returns the exact result rounded to the nearest double, ties to even:
  \<open>fl\<close> rounds to 53 significant bits (fewer below \<open>2^-1022\<close>, where the spacing of
  doubles stays \<open>2^-1074\<close>) and overflows when the rounded value exceeds the largest
  double. \<open>binade x\<close> is the exponent \<open>e\<close> with \<open>2^e \<le> |x| < 2^(e+1)\<close>. The sign of a
  zero is not represented; it could only show in the sign of an infinity, and the
  infinities are not told apart.
\<close>

datatype double = Finite rat | NonFinite

definition binade :: "rat \<Rightarrow> int" where
  "binade x =
     (let (p, q) = quotient_of \<bar>x\<bar>; d = bitlen p - bitlen q
      in if 2 powi d \<le> \<bar>x\<bar> then d else d - 1)"

definition round_half_even :: "rat \<Rightarrow> int" where
  "round_half_even y =
     (let f = \<lfloor>y\<rfloor>; r = y - of_int f
      in if r < 1 / 2 then f else if 1 / 2 < r then f + 1 else if even f then f else f + 1)"

definition DBL_MAX :: rat where
  "DBL_MAX = (2 ^ 53 - 1) * 2 ^ 971"

definition fl :: "rat \<Rightarrow> double" where
  "fl x =
     (if x = 0 then Finite 0
      else let e = max (binade x) (- 1022);
               u = 2 powi (e - 52);
               r = of_int (round_half_even (x / u)) * u
           in if DBL_MAX < \<bar>r\<bar> then NonFinite else Finite r)"

text \<open>
  The program only divides by finite values and only multiplies a finite value (an
  \<open>int\<close> converted to \<open>double\<close>, which is exact) with a double. Dividing a finite value
  by zero gives an infinity or NaN; an infinity or NaN divided by, or multiplied with, a
  finite value is again an infinity or NaN.
\<close>

fun ddiv :: "double \<Rightarrow> rat \<Rightarrow> double" where
  "ddiv (Finite a) b = (if b = 0 then NonFinite else fl (a / b))"
| "ddiv NonFinite b = NonFinite"

fun dmul :: "rat \<Rightarrow> double \<Rightarrow> double" where
  "dmul a (Finite b) = fl (a * b)"
| "dmul a NonFinite = NonFinite"

text \<open>
  \<open>static_cast<int>\<close> of a double truncates towards zero; the behaviour is undefined
  (\<open>None\<close>) when the truncated value is not a 32-bit \<open>int\<close>, as for infinities and NaN.
\<close>

definition truncate :: "rat \<Rightarrow> int" where
  "truncate x = (if 0 \<le> x then \<lfloor>x\<rfloor> else \<lceil>x\<rceil>)"

fun static_cast_int :: "double \<Rightarrow> int option" where
  "static_cast_int (Finite x) =
     (let t = truncate x in if - (2 ^ 31) \<le> t \<and> t < 2 ^ 31 then Some t else None)"
| "static_cast_int NonFinite = None"

section \<open>Geometry and timing\<close>

text \<open>
  \<open>videoWidth\<close>, \<open>videoHeight\<close> and \<open>cap_fps\<close> are the (finite) values that the capture
  reports for \<open>CAP_PROP_FRAME_WIDTH\<close>, \<open>CAP_PROP_FRAME_HEIGHT\<close> and \<open>CAP_PROP_FPS\<close>.
\<close>

definition getTargetDimensions :: "rat \<Rightarrow> rat \<Rightarrow> Options \<Rightarrow> Options option" where
  "getTargetDimensions videoWidth videoHeight opts =
     (let videoAspect = ddiv (Finite videoWidth) videoHeight;
          charAspect = 1 / 2;
          derived =
            (if targetWidth opts \<le> 0 then
               static_cast_int (ddiv (dmul (of_int (targetHeight opts)) videoAspect) charAspect)
             else Some (targetWidth opts))
      in case derived of
           None \<Rightarrow> None
         | Some w \<Rightarrow>
             Some (opts\<lparr>targetHeight := clamp (targetHeight opts) MIN_HEIGHT MAX_HEIGHT,
                        targetWidth := clamp w MIN_WIDTH MAX_WIDTH\<rparr>))"

text \<open>
  The conversion of a double that has no \<open>int\<close> value is undefined in C++, but it is
  no error path of the program: the compiled conversion yields some \<open>int\<close> (the
  smallest \<open>int\<close> with the x86 conversion instruction) and the program goes on.
  \<open>static_cast_int_or unrepresentable\<close> is the conversion that yields the int
  \<open>unrepresentable\<close> in that case, and \<open>getTargetDimensions_or unrepresentable\<close> is
  \<open>getTargetDimensions\<close> with this conversion, so that it returns for every input.
\<close>

definition static_cast_int_or :: "int \<Rightarrow> double \<Rightarrow> int" where
  "static_cast_int_or unrepresentable d =
     (case static_cast_int d of None \<Rightarrow> unrepresentable | Some t \<Rightarrow> t)"

definition getTargetDimensions_or :: "int \<Rightarrow> rat \<Rightarrow> rat \<Rightarrow> Options \<Rightarrow> Options" where
  "getTargetDimensions_or unrepresentable videoWidth videoHeight opts =
     (let videoAspect = ddiv (Finite videoWidth) videoHeight;
          charAspect = 1 / 2;
          derived =
            (if targetWidth opts \<le> 0 then
               static_cast_int_or unrepresentable
                 (ddiv (dmul (of_int (targetHeight opts)) videoAspect) charAspect)
             else targetWidth opts)
      in opts\<lparr>targetHeight := clamp (targetHeight opts) MIN_HEIGHT MAX_HEIGHT,
              targetWidth := clamp derived MIN_WIDTH MAX_WIDTH\<rparr>)"

definition getDelayMs :: "rat \<Rightarrow> Options \<Rightarrow> double" where
  "getDelayMs cap_fps opts =
     (if framerate opts \<noteq> - 1 then ddiv (Finite 1000) (of_int (framerate opts))
      else let fps = (if cap_fps \<le> 0 then of_int DEFAULT_FRAMERATE else cap_fps)
           in ddiv (Finite 1000) fps)"

section \<open>Playback\<close>

text \<open>
  What \<open>animateAscii\<close> does to the terminal and the clock is the list of its effects in
  the order in which they happen. \<open>clearScreen\<close> depends on the platform: \<open>win32\<close> says
  whether \<open>_WIN32\<close> is defined.
\<close>

datatype effect = Write string | Flush | Sleep int | System string

definition clearScreen :: "bool \<Rightarrow> effect list" where
  "clearScreen win32 =
     (if win32 then [System ''cls'']
      else [Write (ESC # ''[2J'' @ ESC # ''[H''), Flush])"

fun animateAscii :: "bool \<Rightarrow> string list \<Rightarrow> double \<Rightarrow> effect list option" where
  "animateAscii win32 [] delayMs = Some []"
| "animateAscii win32 (frameStr # rest) delayMs =
     (case static_cast_int delayMs of
        None \<Rightarrow> None
      | Some ms \<Rightarrow>
          (case animateAscii win32 rest delayMs of
             None \<Rightarrow> None
           | Some later \<Rightarrow> Some (clearScreen win32 @ [Write frameStr, Flush, Sleep ms] @ later)))"

section \<open>Reading decimal numerals\<close>

text \<open>The number that a string of decimal digits denotes; it is used to state that the
  digits printed by \<open>to_string\<close> are those of the value printed.\<close>

definition digit_value :: "char \<Rightarrow> nat" where
  "digit_value c = of_char c - 48"

definition decimal_value :: "string \<Rightarrow> nat" where
  "decimal_value s = foldl (\<lambda>acc c. 10 * acc + digit_value c) 0 s"

section \<open>The layout of a glyph frame\<close>

text \<open>
  The text that the specification prescribes for a grid of pixels: the rows from top to
  bottom, each row being the units of its pixels from left to right, with no separator,
  followed by a newline. The unit of a pixel is one glyph in mode None, and a colour
  escape, one glyph and the reset escape in the two colour modes.
\<close>

definition glyph :: "int \<Rightarrow> char" where
  "glyph brightness = asciiChars ! nat (brightness * 9 div 255)"

definition average :: "Vec3b \<Rightarrow> int" where
  "average px = (uint (snd (snd px)) + uint (fst (snd px)) + uint (fst px)) div 3"

definition gray_unit :: "uchar \<Rightarrow> string" where
  "gray_unit px = [glyph (uint px)]"

fun color_unit :: "ColorMode \<Rightarrow> Vec3b \<Rightarrow> string" where
  "color_unit ANSI px =
     rgbToAnsiColor (uint (snd (snd px))) (uint (fst (snd px))) (uint (fst px)) (average px)
     @ [glyph (average px)] @ RESET"
| "color_unit Full px =
     TRUECOLOR @ to_string (uint (snd (snd px))) @ '';'' @ to_string (uint (fst (snd px)))
     @ '';'' @ to_string (uint (fst px)) @ ''m'' @ [glyph (average px)] @ RESET"
| "color_unit None_mode px = []"

definition frame_text :: "('a \<Rightarrow> string) \<Rightarrow> 'a Mat \<Rightarrow> string" where
  "frame_text unit grid = concat (map (\<lambda>row. concat (map unit row) @ [newline]) grid)"

text \<open>The glyph frame of one decoded frame, as a function of that frame and the options
  alone: the body of the loop of \<open>loadFrames\<close> run on matrices that hold nothing else.\<close>

definition renderFrame :: "OpenCV \<Rightarrow> Options \<Rightarrow> int \<Rightarrow> int \<Rightarrow> Vec3b Mat \<Rightarrow> string option" where
  "renderFrame cv opts height width f =
     (if colorMode opts = None_mode then
        frameLoop None_mode [] (resize_gray cv (cvtColor_gray cv f) width height) height width 0 []
      else
        frameLoop (colorMode opts) (resize_color cv f width height) [] height width 0 [])"

section \<open>Basic facts about the pixel primitives\<close>

lemma c_div_nonneg: "0 \<le> a \<Longrightarrow> 0 < b \<Longrightarrow> c_div a b = a div b"
  by (cases "a = 0") (simp_all add: c_div_def)

lemma asciiLen_eq: "asciiLen = 10"
  by (simp add: asciiLen_def asciiChars_def)

lemma uchar_range: "0 \<le> uint (x::uchar) \<and> uint x \<le> 255"
  using uint_lt2p [of x] by simp

lemma gradient_index_floor:
  "\<lfloor>(of_int b * (of_int asciiLen - 1)) / (255::rat)\<rfloor> = (b * 9) div 255"
proof -
  have "(of_int b * (of_int asciiLen - 1)) / (255::rat) = of_int (b * 9) / of_int 255"
    by (simp add: asciiLen_eq)
  then show ?thesis
    by (simp only: floor_divide_of_int_eq)
qed

lemma gradient_index_range:
  assumes "0 \<le> (x::int)" "x \<le> 255"
  shows "0 \<le> x * 9 div 255" "x * 9 div 255 \<le> 9" "x * 9 div 255 < 10"
    "c_div (x * 9) 255 = x * 9 div 255"
proof -
  show "0 \<le> x * 9 div 255" "x * 9 div 255 \<le> 9" "x * 9 div 255 < 10"
    using assms by simp_all
  show "c_div (x * 9) 255 = x * 9 div 255"
    using assms by (intro c_div_nonneg) simp_all
qed

lemmas byte_index = gradient_index_range [OF uchar_range [THEN conjunct1] uchar_range [THEN conjunct2]]

lemma table_index:
  assumes "0 \<le> x" "x \<le> 255"
  shows "c_div (x * (asciiLen - 1)) 255 = x * 9 div 255"
  using gradient_index_range(4) [OF assms] by (simp add: asciiLen_eq)

lemma clamp_byte: "clamp (uint (px::uchar)) 0 255 = uint px"
  using uchar_range [of px] by (simp add: clamp_def)

lemma brightnessToAscii_in_range:
  assumes "0 \<le> b" "b \<le> 255"
  shows "brightnessToAscii b = Some (asciiChars ! nat ((b * 9) div 255))"
proof -
  from assms have "c_div (b * 9) 255 = (b * 9) div 255"
    by (intro c_div_nonneg) simp_all
  moreover from assms have "0 \<le> (b * 9) div 255" "(b * 9) div 255 < 10"
    by simp_all
  ultimately show ?thesis
    by (simp add: brightnessToAscii_def asciiLen_eq)
qed

lemma average_in_range:
  assumes "0 \<le> s" "s \<le> 765"
  shows "c_div s 3 = s div 3" "0 \<le> s div 3" "s div 3 \<le> 255"
    "clamp (c_div s 3) 0 255 = s div 3" "clamp (s div 3) 0 255 = s div 3"
proof -
  show c: "c_div s 3 = s div 3"
    using assms by (simp add: c_div_nonneg)
  show lo: "0 \<le> s div 3"
    using assms by simp
  show hi: "s div 3 \<le> 255"
    using assms by linarith
  show "clamp (s div 3) 0 255 = s div 3"
    using lo hi by (simp add: clamp_def)
  then show "clamp (c_div s 3) 0 255 = s div 3"
    unfolding c .
qed

lemma byte_sum_range:
  fixes r g b :: uchar
  shows "0 \<le> uint r + uint g + uint b" "uint r + uint g + uint b \<le> 765"
  using uchar_range [of r] uchar_range [of g] uchar_range [of b] by simp_all

lemmas byte_average = average_in_range [OF byte_sum_range]

lemma ansiPixel_eq:
  fixes r g b :: uchar
  shows "ansiPixel (b, g, r) =
     Some (rgbToAnsiColor (uint r) (uint g) (uint b) ((uint r + uint g + uint b) div 3)
           @ [asciiChars ! nat (((uint r + uint g + uint b) div 3) * 9 div 255)] @ RESET)"
proof -
  have "brightnessToAscii ((uint r + uint g + uint b) div 3) =
      Some (asciiChars ! nat (((uint r + uint g + uint b) div 3) * 9 div 255))"
    by (rule brightnessToAscii_in_range) (rule byte_average)+
  then show ?thesis
    by (simp add: ansiPixel_def Let_def byte_average)
qed

lemma grayPixel_eq: "grayPixel px = Some [asciiChars ! nat (uint px * 9 div 255)]"
  using byte_index [of px] by (simp add: grayPixel_def asciiLen_eq clamp_byte)

lemma digit_value_digit_char: "d < 10 \<Longrightarrow> digit_value (digit_char d) = d"
  by (simp add: digit_value_def digit_char_def)

lemma decimal_value_snoc: "decimal_value (s @ [c]) = 10 * decimal_value s + digit_value c"
  by (simp add: decimal_value_def)

lemma decimal_value_to_string_nat: "decimal_value (to_string_nat n) = n"
proof (induction n rule: to_string_nat.induct)
  case (1 n)
  show ?case
  proof (cases "n < 10")
    case True
    then show ?thesis
      by (subst to_string_nat.simps) (simp add: decimal_value_def digit_value_digit_char)
  next
    case False
    with 1 have "decimal_value (to_string_nat (n div 10)) = n div 10"
      by simp
    with False show ?thesis
      by (subst to_string_nat.simps) (simp add: decimal_value_snoc digit_value_digit_char)
  qed
qed

lemma to_string_uint: "to_string (uint (x::uchar)) = to_string_nat (unat x)"
  by (simp add: to_string_def)

lemma to_string_12: "to_string 12 = ''12''"
  by code_simp

lemma to_string_34: "to_string 34 = ''34''"
  by code_simp

lemma to_string_56: "to_string 56 = ''56''"
  by code_simp

lemma fullPixel_eq:
  fixes r g b :: uchar
  shows "fullPixel (b, g, r) =
     Some (TRUECOLOR @ to_string (uint r) @ '';'' @ to_string (uint g) @ '';''
           @ to_string (uint b) @ ''m''
           @ [asciiChars ! nat (((uint r + uint g + uint b) div 3) * 9 div 255)] @ RESET)"
proof -
  have "brightnessToAscii ((uint r + uint g + uint b) div 3) =
      Some (asciiChars ! nat (((uint r + uint g + uint b) div 3) * 9 div 255))"
    by (rule brightnessToAscii_in_range) (rule byte_average)+
  then show ?thesis
    by (simp add: fullPixel_def rgbToTrueColor_def Let_def byte_average)
qed

section \<open>The brightness-to-glyph mapping\<close>

text \<open>
  Claim C1. For every brightness \<open>b\<close> in \<open>[0,255]\<close> the brightness-to-glyph mapping
  returns the entry of the gradient at index \<open>floor(b * (N - 1) / 255)\<close>, where the
  gradient is the fixed table of \<open>N = 10\<close> glyphs \<open>@%#*+=-:.\<close> and blank; brightness 0
  gives \<open>@\<close> and brightness 255 gives the blank.
\<close>

theorem brightnessToAscii_gradient:
  "(0 \<le> b \<and> b \<le> 255 \<longrightarrow>
      brightnessToAscii b = Some (asciiChars ! nat \<lfloor>(of_int b * (of_int asciiLen - 1)) / (255::rat)\<rfloor>))
   \<and> asciiChars = ''@%#*+=-:. '' \<and> asciiLen = 10
   \<and> brightnessToAscii 0 = Some (CHR ''@'') \<and> brightnessToAscii 255 = Some (CHR '' '')"
proof -
  have "brightnessToAscii 0 = Some (CHR ''@'')"
    using brightnessToAscii_in_range [of 0] by (simp add: asciiChars_def)
  moreover have "brightnessToAscii 255 = Some (CHR '' '')"
    using brightnessToAscii_in_range [of 255] by (simp add: asciiChars_def)
  moreover have "asciiChars = ''@%#*+=-:. ''"
    by (simp add: asciiChars_def)
  ultimately show ?thesis
    unfolding gradient_index_floor
    using brightnessToAscii_in_range [of b] asciiLen_eq by simp
qed

theorem brightnessToAscii_gradient_witness:
  "(0::int) \<le> 128 \<and> (128::int) \<le> 255 \<and> brightnessToAscii 128 = Some (CHR ''+'')"
  using brightnessToAscii_gradient [of 128] unfolding gradient_index_floor
  by (simp add: asciiChars_def)

section \<open>ANSI colour classification\<close>

text \<open>
  Claim C2. For every pixel rendered in ANSI mode, with the brightness being the integer
  average \<open>(R + G + B) / 3\<close> clamped to \<open>[0,255]\<close>, the colour is chosen by the first rule
  that applies: brightness below 30 gives black; otherwise a spread
  \<open>max(R,G,B) - min(R,G,B)\<close> below 20 gives bright white if the brightness exceeds 200,
  white if it exceeds 120 and bright black otherwise; otherwise a strictly dominant
  channel gives red, green or blue, in the bright variant if the brightness exceeds 128
  and in the dim variant otherwise; otherwise, with no strictly dominant channel, the
  colour is white. The pixel is emitted as the colour escape, the glyph of the
  brightness and the reset escape.
\<close>

theorem ansi_classification:
  fixes r g b :: uchar
  assumes "R = uint r" "G = uint g" "B = uint b"
    and "brightness = clamp (c_div (R + G + B) 3) 0 255"
    and "spread = max R (max G B) - min R (min G B)"
    and "colour = rgbToAnsiColor R G B brightness"
  shows "brightness = (R + G + B) div 3
    \<and> ansiPixel (b, g, r) =
        Some (colour @ [asciiChars ! nat (brightness * 9 div 255)] @ RESET)
    \<and> (brightness < 30 \<longrightarrow> colour = BLACK)
    \<and> (30 \<le> brightness \<and> spread < 20 \<and> 200 < brightness \<longrightarrow> colour = BRIGHT_WHITE)
    \<and> (30 \<le> brightness \<and> spread < 20 \<and> 120 < brightness \<and> brightness \<le> 200 \<longrightarrow> colour = WHITE)
    \<and> (30 \<le> brightness \<and> spread < 20 \<and> brightness \<le> 120 \<longrightarrow> colour = BRIGHT_BLACK)
    \<and> (30 \<le> brightness \<and> 20 \<le> spread \<and> G < R \<and> B < R \<longrightarrow>
          colour = (if 128 < brightness then BRIGHT_RED else RED))
    \<and> (30 \<le> brightness \<and> 20 \<le> spread \<and> R < G \<and> B < G \<longrightarrow>
          colour = (if 128 < brightness then BRIGHT_GREEN else GREEN))
    \<and> (30 \<le> brightness \<and> 20 \<le> spread \<and> R < B \<and> G < B \<longrightarrow>
          colour = (if 128 < brightness then BRIGHT_BLUE else BLUE))
    \<and> (30 \<le> brightness \<and> 20 \<le> spread
          \<and> \<not> (G < R \<and> B < R) \<and> \<not> (R < G \<and> B < G) \<and> \<not> (R < B \<and> G < B) \<longrightarrow>
          colour = WHITE)"
proof -
  have br: "brightness = (R + G + B) div 3"
    unfolding assms by (simp add: byte_average)
  have px: "ansiPixel (b, g, r) =
      Some (colour @ [asciiChars ! nat (brightness * 9 div 255)] @ RESET)"
    using assms br by (simp add: ansiPixel_eq)
  have rules: "colour =
     (if brightness < 30 then BLACK
      else if spread < 20 then
        (if 200 < brightness then BRIGHT_WHITE else if 120 < brightness then WHITE
         else BRIGHT_BLACK)
      else if G < R \<and> B < R then (if 128 < brightness then BRIGHT_RED else RED)
      else if R < G \<and> B < G then (if 128 < brightness then BRIGHT_GREEN else GREEN)
      else if R < B \<and> G < B then (if 128 < brightness then BRIGHT_BLUE else BLUE)
      else WHITE)"
    using assms(5,6) by (simp add: rgbToAnsiColor_def threshold_defs Let_def)
  show ?thesis
    using br px by (simp add: rules)
qed

theorem ansi_classification_witness:
  "clamp (c_div (10 + 10 + 10) 3) 0 255 = 10 \<and> (10::int) < 30
     \<and> rgbToAnsiColor 10 10 10 10 = BLACK
   \<and> clamp (c_div (200 + 20 + 20) 3) 0 255 = 80 \<and> (30::int) \<le> 80
     \<and> (20::int) \<le> max 200 (max 20 20) - min 200 (min 20 20) \<and> \<not> (128::int) < 80
     \<and> rgbToAnsiColor 200 20 20 80 = RED
   \<and> clamp (c_div (150 + 150 + 150) 3) 0 255 = 150 \<and> (120::int) < 150 \<and> (150::int) \<le> 200
     \<and> max 150 (max 150 150) - min 150 (min 150 150) < (20::int)
     \<and> rgbToAnsiColor 150 150 150 150 = WHITE
   \<and> clamp (c_div (250 + 250 + 250) 3) 0 255 = 250 \<and> (200::int) < 250
     \<and> rgbToAnsiColor 250 250 250 250 = BRIGHT_WHITE
   \<and> ansiPixel (20, 20, 200) = Some (RED @ ''#'' @ RESET)"
  using ansi_classification [where r = 10 and g = 10 and b = 10, OF refl refl refl refl refl refl]
    ansi_classification [where r = 200 and g = 20 and b = 20, OF refl refl refl refl refl refl]
    ansi_classification [where r = 150 and g = 150 and b = 150, OF refl refl refl refl refl refl]
    ansi_classification [where r = 250 and g = 250 and b = 250, OF refl refl refl refl refl refl]
  by (simp add: clamp_def c_div_def asciiChars_def)

section \<open>True-colour emission\<close>

text \<open>
  Claim C4. For every pixel rendered in Full mode, with the brightness being the same
  integer average as in ANSI mode, the text emitted is exactly the escape
  \<open>ESC[38;2;R;G;Bm\<close> with the decimal numerals of the exact channel values, then the
  glyph of the brightness, then the reset \<open>ESC[0m\<close>. For \<open>R = 12\<close>, \<open>G = 34\<close>, \<open>B = 56\<close>
  the brightness is 34, its glyph is \<open>%\<close>, and the text is \<open>ESC[38;2;12;34;56m%ESC[0m\<close>.
\<close>

theorem truecolor_emission:
  fixes r g b :: uchar
  shows "fullPixel (b, g, r) =
       Some (TRUECOLOR @ to_string (uint r) @ '';'' @ to_string (uint g) @ '';''
             @ to_string (uint b) @ ''m''
             @ [asciiChars ! nat (clamp (c_div (uint r + uint g + uint b) 3) 0 255 * 9 div 255)]
             @ RESET)
    \<and> clamp (c_div (uint r + uint g + uint b) 3) 0 255 = (uint r + uint g + uint b) div 3
    \<and> decimal_value (to_string (uint r)) = unat r
    \<and> decimal_value (to_string (uint g)) = unat g
    \<and> decimal_value (to_string (uint b)) = unat b
    \<and> clamp (c_div (12 + 34 + 56) 3) 0 255 = 34
    \<and> fullPixel (56, 34, 12) = Some (ESC # ''[38;2;12;34;56m'' @ ''%'' @ ESC # ''[0m'')
    \<and> brightnessToAscii 34 = Some (CHR ''%'')"
proof -
  have ex: "fullPixel (56, 34, 12) = Some (ESC # ''[38;2;12;34;56m'' @ ''%'' @ ESC # ''[0m'')"
    using fullPixel_eq [of 56 34 12]
    by (simp add: to_string_12 to_string_34 to_string_56 color_defs asciiChars_def)
  have g: "brightnessToAscii 34 = Some (CHR ''%'')"
    using brightnessToAscii_in_range [of 34] by (simp add: asciiChars_def)
  have c: "clamp (c_div (12 + 34 + 56) 3) 0 255 = 34"
    by (simp add: clamp_def c_div_def)
  have d: "decimal_value (to_string (uint x)) = unat x" for x :: uchar
    by (simp only: to_string_uint decimal_value_to_string_nat)
  show ?thesis
    unfolding byte_average d
    using fullPixel_eq [of b g r] ex g c by simp
qed

section \<open>The glyph table is never read out of bounds\<close>

text \<open>
  Claim C10. For every pixel in every mode the brightness computed lies in \<open>[0,255]\<close>
  and the clamp leaves it unchanged, because the channels are bytes. Hence the index
  \<open>brightness * 9 / 255\<close> lies in \<open>[0,9]\<close>, the lookup in \<open>brightnessToAscii\<close> (and the
  inline lookup of mode None) stays inside the table of 10 glyphs, and every pixel
  yields text.
\<close>

theorem brightness_index_in_bounds:
  fixes r g b px :: uchar
  shows "clamp (c_div (uint r + uint g + uint b) 3) 0 255 = c_div (uint r + uint g + uint b) 3
    \<and> 0 \<le> c_div (uint r + uint g + uint b) 3 \<and> c_div (uint r + uint g + uint b) 3 \<le> 255
    \<and> 0 \<le> c_div (c_div (uint r + uint g + uint b) 3 * (asciiLen - 1)) 255
    \<and> c_div (c_div (uint r + uint g + uint b) 3 * (asciiLen - 1)) 255 \<le> 9
    \<and> brightnessToAscii (clamp (c_div (uint r + uint g + uint b) 3) 0 255) =
        Some (asciiChars ! nat (c_div (c_div (uint r + uint g + uint b) 3 * (asciiLen - 1)) 255))
    \<and> nat (c_div (c_div (uint r + uint g + uint b) 3 * (asciiLen - 1)) 255) < length asciiChars
    \<and> (\<exists>text. ansiPixel (b, g, r) = Some text)
    \<and> (\<exists>text. fullPixel (b, g, r) = Some text)
    \<and> clamp (uint px) 0 255 = uint px
    \<and> 0 \<le> c_div (uint px * (asciiLen - 1)) 255 \<and> c_div (uint px * (asciiLen - 1)) 255 \<le> 9
    \<and> grayPixel px = Some [asciiChars ! nat (c_div (uint px * (asciiLen - 1)) 255)]"
proof -
  define s where "s = uint r + uint g + uint b"
  define k where "k = c_div (c_div s 3 * (asciiLen - 1)) 255"
  define j where "j = c_div (uint px * (asciiLen - 1)) 255"
  have s: "0 \<le> s div 3" "s div 3 \<le> 255" "c_div s 3 = s div 3"
    unfolding s_def by (rule byte_average)+
  have k: "k = s div 3 * 9 div 255"
    unfolding k_def s(3) using s(1,2) by (rule table_index)
  have j: "j = uint px * 9 div 255"
    unfolding j_def using uchar_range [of px] by (intro table_index) simp_all
  have c1: "clamp (c_div s 3) 0 255 = c_div s 3"
    using s by (simp add: clamp_def)
  have c2: "0 \<le> c_div s 3" "c_div s 3 \<le> 255"
    using s by simp_all
  have c3: "0 \<le> k" "k \<le> 9"
    unfolding k using gradient_index_range [OF s(1,2)] by simp_all
  have c4: "brightnessToAscii (clamp (c_div s 3) 0 255) = Some (asciiChars ! nat k)"
  proof -
    have "clamp (c_div s 3) 0 255 = s div 3"
      using c1 s(3) by simp
    then show ?thesis
      unfolding k using brightnessToAscii_in_range [OF s(1,2)] by simp
  qed
  have c5: "nat k < length asciiChars"
    using c3 by (simp add: asciiChars_def)
  have c6: "\<exists>text. ansiPixel (b, g, r) = Some text"
    by (simp add: ansiPixel_eq)
  have c7: "\<exists>text. fullPixel (b, g, r) = Some text"
    by (simp add: fullPixel_eq)
  have c8: "clamp (uint px) 0 255 = uint px"
    by (rule clamp_byte)
  have c9: "0 \<le> j" "j \<le> 9"
    unfolding j using byte_index [of px] by simp_all
  have c10: "grayPixel px = Some [asciiChars ! nat j]"
    unfolding j by (rule grayPixel_eq)
  show ?thesis
    using c1 c2 c3 c4 c5 c6 c7 c8 c9 c10 unfolding s_def k_def j_def by blast
qed

section \<open>The two loops over a frame\<close>

lemma rowLoop_units:
  assumes "\<And>i. x \<le> i \<Longrightarrow> i < width \<Longrightarrow> pixelStep mode cp gp i = Some (f i)"
  shows "rowLoop mode cp gp width x acc = Some (acc @ concat (map f [x..width - 1]))"
  using assms
proof (induction mode cp gp width x acc rule: rowLoop.induct)
  case (1 mode cp gp width x acc)
  show ?case
  proof (cases "x < width")
    case True
    then have step: "pixelStep mode cp gp x = Some (f x)"
      using "1.prems" by simp
    have "rowLoop mode cp gp width (x + 1) (acc @ f x) =
        Some ((acc @ f x) @ concat (map f [x + 1..width - 1]))"
      using True step "1.prems" by (intro "1.IH") simp_all
    moreover have "[x..width - 1] = x # [x + 1..width - 1]"
      using True by (simp add: upto_rec1)
    ultimately show ?thesis
      using True step by (subst rowLoop.simps) simp
  next
    case False
    then show ?thesis
      by (subst rowLoop.simps) simp
  qed
qed

lemma frameLoop_lines:
  assumes "\<And>y acc. y0 \<le> y \<Longrightarrow> y < height \<Longrightarrow>
     rowLoop mode (if mode \<noteq> None_mode then ptr rc y else None)
       (if mode = None_mode then ptr g y else None) width 0 acc = Some (acc @ line y)"
  shows "frameLoop mode rc g height width y0 acc =
     Some (acc @ concat (map (\<lambda>y. line y @ [newline]) [y0..height - 1]))"
  using assms
proof (induction mode rc g height width y0 acc rule: frameLoop.induct)
  case (1 mode rc g height width y acc)
  show ?case
  proof (cases "y < height")
    case True
    then have row: "rowLoop mode (if mode \<noteq> None_mode then ptr rc y else None)
       (if mode = None_mode then ptr g y else None) width 0 acc = Some (acc @ line y)"
      by (intro "1.prems") simp_all
    have "frameLoop mode rc g height width (y + 1) ((acc @ line y) @ [newline]) =
        Some (((acc @ line y) @ [newline])
              @ concat (map (\<lambda>y. line y @ [newline]) [y + 1..height - 1]))"
    proof (rule "1.IH" [OF True refl refl row])
      fix ya acc'
      assume "y + 1 \<le> ya" "ya < height"
      then show "rowLoop mode (if mode \<noteq> None_mode then ptr rc ya else None)
          (if mode = None_mode then ptr g ya else None) width 0 acc' = Some (acc' @ line ya)"
        by (intro "1.prems") simp_all
    qed
    moreover have "[y..height - 1] = y # [y + 1..height - 1]"
      using True by (simp add: upto_rec1)
    ultimately show ?thesis
      using True row by (subst frameLoop.simps) (simp add: Let_def)
  next
    case False
    then show ?thesis
      by (subst frameLoop.simps) simp
  qed
qed

lemma map_upto_nth: "map (\<lambda>i. h (xs ! nat i)) [0..int (length xs) - 1] = map h xs"
proof (induction xs rule: rev_induct)
  case Nil
  show ?case by simp
next
  case (snoc x xs)
  have "[0..int (length (xs @ [x])) - 1] = [0..int (length xs) - 1] @ [int (length xs)]"
    by (simp add: upto_rec2)
  moreover have "map (\<lambda>i. h ((xs @ [x]) ! nat i)) [0..int (length xs) - 1] =
      map (\<lambda>i. h (xs ! nat i)) [0..int (length xs) - 1]"
    by (rule map_cong) (auto simp: nth_append)
  ultimately show ?case
    using snoc by simp
qed

lemma glyph_eq: "grayPixel px = Some (gray_unit px)"
  by (simp add: grayPixel_eq gray_unit_def glyph_def)

lemma colorPixel_eq:
  "ansiPixel px = Some (color_unit ANSI px)" "fullPixel px = Some (color_unit Full px)"
proof -
  obtain b g r where px: "px = (b, g, r)"
    by (cases px) auto
  show "ansiPixel px = Some (color_unit ANSI px)"
    unfolding px by (simp add: ansiPixel_eq average_def glyph_def)
  show "fullPixel px = Some (color_unit Full px)"
    unfolding px by (simp add: fullPixel_eq average_def glyph_def)
qed

lemma pixelStep_gray:
  assumes "0 \<le> i" "i < int (length row)"
  shows "pixelStep None_mode cp (Some row) i = Some (gray_unit (row ! nat i))"
  using assms by (simp add: pixelStep_def deref_def glyph_eq)

lemma pixelStep_color:
  assumes "0 \<le> i" "i < int (length row)" "mode \<noteq> None_mode"
  shows "pixelStep mode (Some row) gp i = Some (color_unit mode (row ! nat i))"
  using assms by (cases mode) (simp_all add: pixelStep_def deref_def colorPixel_eq)

lemma rowLoop_gray:
  assumes "int (length row) = width"
  shows "rowLoop None_mode cp (Some row) width 0 acc = Some (acc @ concat (map gray_unit row))"
proof -
  have "rowLoop None_mode cp (Some row) width 0 acc =
      Some (acc @ concat (map (\<lambda>i. gray_unit (row ! nat i)) [0..width - 1]))"
    using assms by (intro rowLoop_units pixelStep_gray) simp_all
  then show ?thesis
    using map_upto_nth [of gray_unit row] assms by simp
qed

lemma rowLoop_color:
  assumes "int (length row) = width" "mode \<noteq> None_mode"
  shows "rowLoop mode (Some row) gp width 0 acc =
     Some (acc @ concat (map (color_unit mode) row))"
proof -
  have "rowLoop mode (Some row) gp width 0 acc =
      Some (acc @ concat (map (\<lambda>i. color_unit mode (row ! nat i)) [0..width - 1]))"
    using assms by (intro rowLoop_units pixelStep_color) simp_all
  then show ?thesis
    using map_upto_nth [of "color_unit mode" row] assms by simp
qed

lemma frameLoop_gray:
  assumes "int (length grid) = height" "\<forall>row\<in>set grid. int (length row) = width"
  shows "frameLoop None_mode rc grid height width 0 [] = Some (frame_text gray_unit grid)"
proof -
  have "frameLoop None_mode rc grid height width 0 [] =
      Some ([] @ concat (map (\<lambda>y. concat (map gray_unit (grid ! nat y)) @ [newline])
                           [0..height - 1]))"
  proof (rule frameLoop_lines)
    fix y acc
    assume y: "0 \<le> y" "y < height"
    then have "int (length (grid ! nat y)) = width"
      using assms by simp
    then show "rowLoop None_mode (if None_mode \<noteq> None_mode then ptr rc y else None)
        (if None_mode = None_mode then ptr grid y else None) width 0 acc =
        Some (acc @ concat (map gray_unit (grid ! nat y)))"
      using y assms(1) by (simp add: ptr_def rowLoop_gray)
  qed
  then show ?thesis
    using map_upto_nth [of "\<lambda>row. concat (map gray_unit row) @ [newline]" grid] assms(1)
    by (simp add: frame_text_def)
qed

lemma frameLoop_color:
  assumes "int (length grid) = height" "\<forall>row\<in>set grid. int (length row) = width"
    and "mode \<noteq> None_mode"
  shows "frameLoop mode grid g height width 0 [] = Some (frame_text (color_unit mode) grid)"
proof -
  have "frameLoop mode grid g height width 0 [] =
      Some ([] @ concat (map (\<lambda>y. concat (map (color_unit mode) (grid ! nat y)) @ [newline])
                           [0..height - 1]))"
  proof (rule frameLoop_lines)
    fix y acc
    assume y: "0 \<le> y" "y < height"
    then have "int (length (grid ! nat y)) = width"
      using assms by simp
    then show "rowLoop mode (if mode \<noteq> None_mode then ptr grid y else None)
        (if mode = None_mode then ptr g y else None) width 0 acc =
        Some (acc @ concat (map (color_unit mode) (grid ! nat y)))"
      using y assms(1,3) by (simp add: ptr_def rowLoop_color)
  qed
  then show ?thesis
    using map_upto_nth [of "\<lambda>row. concat (map (color_unit mode) row) @ [newline]" grid] assms(1)
    by (simp add: frame_text_def)
qed

section \<open>The layout of every glyph frame\<close>

text \<open>
  Claim C6. Every glyph frame that the renderer produces for a grid of \<open>height\<close> rows of
  \<open>width\<close> pixels consists of exactly \<open>height\<close> lines, each being exactly \<open>width\<close> units
  (a glyph in mode None, an escape sequence with its glyph and reset in the colour
  modes) followed by a newline; the rows come top to bottom and the pixels of a row left
  to right with no separator. The grid of one row and two columns with the values 0 and
  255 renders in mode None to \<open>@\<close>, blank, newline.
\<close>

theorem glyph_frame_layout:
  "(int (length grayGrid) = height \<and> (\<forall>row\<in>set grayGrid. int (length row) = width) \<longrightarrow>
      frameLoop None_mode anyColor grayGrid height width 0 [] =
        Some (frame_text gray_unit grayGrid))
   \<and> (mode \<noteq> None_mode \<and> int (length colorGrid) = height
        \<and> (\<forall>row\<in>set colorGrid. int (length row) = width) \<longrightarrow>
      frameLoop mode colorGrid anyGray height width 0 [] =
        Some (frame_text (color_unit mode) colorGrid))
   \<and> frame_text unit (row # rest) = concat (map unit row) @ [newline] @ frame_text unit rest
   \<and> frame_text unit [] = []
   \<and> frameLoop None_mode [] [[0, 255]] 1 2 0 [] = Some (''@ '' @ [newline])"
proof -
  have "frameLoop None_mode [] [[0, 255]] 1 2 0 [] = Some (frame_text gray_unit [[0, 255]])"
    by (rule frameLoop_gray) simp_all
  then have "frameLoop None_mode [] [[0, 255]] 1 2 0 [] = Some (''@ '' @ [newline])"
    by (simp add: frame_text_def gray_unit_def glyph_def asciiChars_def)
  then show ?thesis
    using frameLoop_gray [of grayGrid height width anyColor]
      frameLoop_color [of colorGrid height width mode anyGray]
    by (simp add: frame_text_def)
qed

theorem glyph_frame_layout_witness:
  "int (length [[0, 255], [128, 64 :: uchar]]) = 2
   \<and> int (length [0, 255 :: uchar]) = 2 \<and> int (length [128, 64 :: uchar]) = 2
   \<and> frameLoop None_mode [] [[0, 255], [128, 64]] 2 2 0 [] =
       Some (''@ '' @ [newline] @ ''+#'' @ [newline])
   \<and> ANSI \<noteq> None_mode \<and> int (length [[(20, 20, 200 :: uchar)]]) = 1
   \<and> int (length [(20 :: uchar, 20 :: uchar, 200 :: uchar)]) = 1
   \<and> frameLoop ANSI [[(20, 20, 200)]] [] 1 1 0 [] = Some (RED @ ''#'' @ RESET @ [newline])"
proof -
  have u: "color_unit ANSI (20, 20, 200) = RED @ ''#'' @ RESET"
    by (simp add: average_def glyph_def asciiChars_def rgbToAnsiColor_def threshold_defs Let_def)
  show ?thesis
    using
      glyph_frame_layout [where grayGrid = "[[0, 255], [128, 64]]" and height = 2 and width = 2
        and anyColor = "[]" and mode = ANSI and colorGrid = "[]" and anyGray = "[]"
        and unit = gray_unit and row = "[]" and rest = "[]"]
      glyph_frame_layout [where grayGrid = "[]" and height = 1 and width = 1
        and anyColor = "[]" and mode = ANSI and colorGrid = "[[(20, 20, 200)]]"
        and anyGray = "[]" and unit = gray_unit and row = "[]" and rest = "[]"]
    by (simp add: frame_text_def gray_unit_def glyph_def asciiChars_def u del: color_unit.simps)
qed

section \<open>The effects of playback\<close>

lemma animateAscii_trace:
  assumes "static_cast_int delayMs = Some ms"
  shows "animateAscii windows frames delayMs =
     Some (concat (map (\<lambda>frameStr. clearScreen windows @ [Write frameStr, Flush, Sleep ms]) frames))"
  using assms by (induction frames) simp_all

text \<open>
  Claim C7. Playback shows every frame of the frame buffer exactly once and in the order
  of the buffer, with no skipping, looping or reordering. For each frame it first
  clears the display (by the command \<open>cls\<close> on Windows, and elsewhere by writing the
  escape sequence \<open>ESC[2J ESC[H\<close> and flushing), then writes the whole frame text, then
  flushes, then sleeps; the delay is the same for every frame, and nothing follows the
  sleep of the last frame.
\<close>

theorem playback_in_order:
  assumes "static_cast_int delayMs = Some ms"
  shows "animateAscii windows frames delayMs =
       Some (concat (map (\<lambda>frameStr.
                 (if windows then [System ''cls'']
                  else [Write [CHR 0x1B, CHR ''['', CHR ''2'', CHR ''J'',
                               CHR 0x1B, CHR ''['', CHR ''H''], Flush])
                 @ [Write frameStr, Flush, Sleep ms]) frames))
    \<and> clearScreen True = [System ''cls'']
    \<and> clearScreen False =
        [Write [CHR 0x1B, CHR ''['', CHR ''2'', CHR ''J'', CHR 0x1B, CHR ''['', CHR ''H''], Flush]"
proof -
  have clear: "clearScreen windows =
      (if windows then [System ''cls'']
       else [Write [CHR 0x1B, CHR ''['', CHR ''2'', CHR ''J'', CHR 0x1B, CHR ''['', CHR ''H''],
             Flush])"
    by (simp add: clearScreen_def ESC_def)
  have "animateAscii windows frames delayMs =
       Some (concat (map (\<lambda>frameStr.
                 (if windows then [System ''cls'']
                  else [Write [CHR 0x1B, CHR ''['', CHR ''2'', CHR ''J'',
                               CHR 0x1B, CHR ''['', CHR ''H''], Flush])
                 @ [Write frameStr, Flush, Sleep ms]) frames))"
    using animateAscii_trace [OF assms, of windows frames] unfolding clear .
  moreover have "clearScreen True = [System ''cls'']"
    by (simp add: clearScreen_def)
  moreover have "clearScreen False =
        [Write [CHR 0x1B, CHR ''['', CHR ''2'', CHR ''J'', CHR 0x1B, CHR ''['', CHR ''H''], Flush]"
    by (simp add: clearScreen_def ESC_def)
  ultimately show ?thesis
    by (intro conjI)
qed

theorem playback_in_order_witness:
  "static_cast_int (Finite 40) = Some 40
   \<and> animateAscii False [''@@'', ''%%''] (Finite 40) =
       Some [Write [CHR 0x1B, CHR ''['', CHR ''2'', CHR ''J'', CHR 0x1B, CHR ''['', CHR ''H''],
             Flush, Write ''@@'', Flush, Sleep 40,
             Write [CHR 0x1B, CHR ''['', CHR ''2'', CHR ''J'', CHR 0x1B, CHR ''['', CHR ''H''],
             Flush, Write ''%%'', Flush, Sleep 40]
   \<and> animateAscii True [''@@'', ''%%''] (Finite 40) =
       Some [System ''cls'', Write ''@@'', Flush, Sleep 40,
             System ''cls'', Write ''%%'', Flush, Sleep 40]"
proof -
  have c: "static_cast_int (Finite 40) = Some 40"
    by (simp add: truncate_def)
  show ?thesis
    using c playback_in_order [OF c, of False "[''@@'', ''%%'']", THEN conjunct1]
      playback_in_order [OF c, of True "[''@@'', ''%%'']", THEN conjunct1]
    by simp
qed

section \<open>Rendering is a function of the frame and the options\<close>

lemma frameLoop_cong:
  assumes "mode \<noteq> None_mode \<Longrightarrow> rc = rc'" "mode = None_mode \<Longrightarrow> g = g'"
  shows "frameLoop mode rc g height width y acc = frameLoop mode rc' g' height width y acc"
  using assms
proof (induction mode rc g height width y acc rule: frameLoop.induct)
  case (1 mode rc g height width y acc)
  have ptrs: "(if mode \<noteq> None_mode then ptr rc y else None) =
      (if mode \<noteq> None_mode then ptr rc' y else None)"
    "(if mode = None_mode then ptr g y else None) = (if mode = None_mode then ptr g' y else None)"
    using "1.prems" by auto
  show ?case
  proof (cases "y < height")
    case True
    show ?thesis
    proof (cases "rowLoop mode (if mode \<noteq> None_mode then ptr rc y else None)
        (if mode = None_mode then ptr g y else None) width 0 acc")
      case None
      then show ?thesis
        using True ptrs
        by (subst frameLoop.simps, subst (2) frameLoop.simps) (simp add: Let_def)
    next
      case (Some row_done)
      have "frameLoop mode rc g height width (y + 1) (row_done @ [newline]) =
          frameLoop mode rc' g' height width (y + 1) (row_done @ [newline])"
        using True Some "1.prems" by (intro "1.IH") simp_all
      then show ?thesis
        using True Some ptrs
        by (subst frameLoop.simps, subst (2) frameLoop.simps) (simp add: Let_def)
    qed
  next
    case False
    then show ?thesis
      by (subst frameLoop.simps, subst (2) frameLoop.simps) simp
  qed
qed

lemma loadFrames_pure:
  "map_option snd (loadFrames cv cap mats acc opts height width) =
     map_option ((@) acc) (those (map (renderFrame cv opts height width) cap))"
proof (induction cap arbitrary: mats acc)
  case Nil
  show ?case by simp
next
  case (Cons f cap)
  define mats2 where "mats2 =
    (if colorMode opts = ANSI \<or> colorMode opts = Full then
       mats\<lparr>frame := f, resizedColor := resize_color cv f width height\<rparr>
     else mats\<lparr>frame := f, gray := cvtColor_gray cv f,
                resized := resize_gray cv (cvtColor_gray cv f) width height\<rparr>)"
  have body: "frameLoop (colorMode opts) (resizedColor mats2) (resized mats2) height width 0 [] =
      renderFrame cv opts height width f"
    unfolding renderFrame_def mats2_def
    by (cases "colorMode opts") (auto intro!: frameLoop_cong)
  have unfold: "loadFrames cv (f # cap) mats acc opts height width =
      (case renderFrame cv opts height width f of
         None \<Rightarrow> None
       | Some frameStr \<Rightarrow> loadFrames cv cap mats2 (acc @ [frameStr]) opts height width)"
    unfolding body [symmetric]
    by (cases "colorMode opts") (simp_all add: Let_def mats2_def split: option.splits)
  show ?case
  proof (cases "renderFrame cv opts height width f")
    case None
    then show ?thesis
      unfolding unfold by simp
  next
    case (Some frameStr)
    then show ?thesis
      unfolding unfold using Cons.IH [of mats2 "acc @ [frameStr]"]
      by (cases "those (map (renderFrame cv opts height width) cap)") simp_all
  qed
qed

lemma those_nth:
  assumes "those xs = Some ys"
  shows "length ys = length xs \<and> (\<forall>i<length xs. xs ! i = Some (ys ! i))"
  using assms
proof (induction xs arbitrary: ys)
  case Nil
  then show ?case by simp
next
  case (Cons x xs)
  then obtain y ys' where x: "x = Some y" and ys': "those xs = Some ys'" and ys: "ys = y # ys'"
    by (auto split: option.splits)
  from Cons.IH [OF ys'] show ?case
    unfolding x ys by (auto simp: nth_Cons split: nat.splits)
qed

text \<open>
  Claim C8. Rendering is deterministic: the glyph frame of a pixel frame depends on that
  frame and the options only. The matrices that \<open>loadFrames\<close> reuses from one iteration
  to the next carry nothing over: the list produced is the list of the results of
  \<open>renderFrame\<close> on each frame, whatever the matrices held before, and a frame that occurs
  twice in the video is rendered to the same string both times.
\<close>

theorem rendering_deterministic:
  "map_option snd (loadFrames cv cap mats acc opts height width) =
     map_option ((@) acc) (those (map (renderFrame cv opts height width) cap))
   \<and> map_option snd (loadFrames cv cap mats acc opts height width) =
     map_option snd (loadFrames cv cap mats' acc opts height width)
   \<and> (loadFrames cv cap mats acc opts height width = Some (mats_end, asciiFrames)
        \<and> i < length cap \<and> j < length cap \<and> cap ! i = cap ! j \<longrightarrow>
      asciiFrames ! (length acc + i) = asciiFrames ! (length acc + j))"
proof -
  have same: "asciiFrames ! (length acc + i) = asciiFrames ! (length acc + j)"
    if run: "loadFrames cv cap mats acc opts height width = Some (mats_end, asciiFrames)"
      and ij: "i < length cap" "j < length cap" "cap ! i = cap ! j"
  proof -
    from run loadFrames_pure [of cv cap mats acc opts height width]
    obtain ss where ss: "those (map (renderFrame cv opts height width) cap) = Some ss"
      and out: "asciiFrames = acc @ ss"
      by (cases "those (map (renderFrame cv opts height width) cap)") auto
    have "renderFrame cv opts height width (cap ! i) = Some (ss ! i)"
      using those_nth [OF ss] ij(1) by simp
    moreover have "renderFrame cv opts height width (cap ! j) = Some (ss ! j)"
      using those_nth [OF ss] ij(2) by simp
    ultimately have "ss ! i = ss ! j"
      unfolding ij(3) by simp
    then show ?thesis
      unfolding out by simp
  qed
  show ?thesis
    using same by (simp add: loadFrames_pure)
qed

theorem rendering_deterministic_witness:
  "loadFrames \<lparr>cvtColor_gray = map (map fst), resize_gray = (\<lambda>m w h. m),
                resize_color = (\<lambda>m w h. m)\<rparr>
      [[[(0, 0, 0)]], [[(0, 0, 0)]]] empty_Mats []
      \<lparr>videoPath = ''v'', colorMode = None_mode, targetHeight = 1, targetWidth = 1,
         framerate = - 1\<rparr> 1 1 =
     Some (\<lparr>frame = [[(0, 0, 0)]], gray = [[0]], resized = [[0]], resizedColor = []\<rparr>,
           [''@'' @ [newline], ''@'' @ [newline]])
   \<and> (0::nat) < length [[[(0, 0, 0 :: uchar)]], [[(0 :: uchar, 0 :: uchar, 0 :: uchar)]]]
   \<and> (1::nat) < length [[[(0, 0, 0 :: uchar)]], [[(0 :: uchar, 0 :: uchar, 0 :: uchar)]]]
   \<and> [[[(0, 0, 0)]], [[(0 :: uchar, 0 :: uchar, 0 :: uchar)]]] ! 0 = [[[(0, 0, 0)]], [[(0, 0, 0)]]] ! 1
   \<and> [''@'' @ [newline], ''@'' @ [newline]] ! (length ([] :: string list) + 0) =
       [''@'' @ [newline], ''@'' @ [newline]] ! (length ([] :: string list) + 1)"
proof -
  have f: "frameLoop None_mode rc [[0]] 1 1 0 [] = Some (''@'' @ [newline])" for rc
    using frameLoop_gray [of "[[0]]" 1 1 rc]
    by (simp add: frame_text_def gray_unit_def glyph_def asciiChars_def)
  have run: "loadFrames \<lparr>cvtColor_gray = map (map fst), resize_gray = (\<lambda>m w h. m),
                resize_color = (\<lambda>m w h. m)\<rparr>
      [[[(0, 0, 0)]], [[(0, 0, 0)]]] empty_Mats []
      \<lparr>videoPath = ''v'', colorMode = None_mode, targetHeight = 1, targetWidth = 1,
         framerate = - 1\<rparr> 1 1 =
     Some (\<lparr>frame = [[(0, 0, 0)]], gray = [[0]], resized = [[0]], resizedColor = []\<rparr>,
           [''@'' @ [newline], ''@'' @ [newline]])"
    by (simp add: Let_def f empty_Mats_def)
  show ?thesis
    using run
      rendering_deterministic [where cv = "\<lparr>cvtColor_gray = map (map fst),
          resize_gray = (\<lambda>m w h. m), resize_color = (\<lambda>m w h. m)\<rparr>"
        and cap = "[[[(0, 0, 0)]], [[(0, 0, 0)]]]" and mats = empty_Mats and mats' = empty_Mats
        and acc = "[]" and height = 1 and width = 1 and i = 0 and j = 1
        and opts = "\<lparr>videoPath = ''v'', colorMode = None_mode, targetHeight = 1,
          targetWidth = 1, framerate = - 1\<rparr>"
        and mats_end = "\<lparr>frame = [[(0, 0, 0)]], gray = [[0]], resized = [[0]],
          resizedColor = []\<rparr>"
        and asciiFrames = "[''@'' @ [newline], ''@'' @ [newline]]"]
    by simp
qed

section \<open>Facts about rounding to double precision\<close>

lemma bitlen_powi:
  assumes "0 < p"
  shows "(2::rat) powi (bitlen p - 1) \<le> of_int p" "of_int p < (2::rat) powi bitlen p"
proof -
  from assms have b: "1 \<le> bitlen p"
    by (auto simp: bitlen_alt_def)
  from bitlen_bounds [OF assms] have "(2::int) ^ nat (bitlen p - 1) \<le> p" "p < 2 ^ nat (bitlen p)"
    by simp_all
  then have "(of_int ((2::int) ^ nat (bitlen p - 1)) :: rat) \<le> of_int p"
    "(of_int p :: rat) < of_int (2 ^ nat (bitlen p))"
    by (simp_all only: of_int_le_iff of_int_less_iff)
  then show "(2::rat) powi (bitlen p - 1) \<le> of_int p" "of_int p < (2::rat) powi bitlen p"
    using b by (simp_all add: power_int_def)
qed

lemma binade_bounds:
  assumes "x \<noteq> 0"
  shows "2 powi binade x \<le> \<bar>x\<bar>" "\<bar>x\<bar> < 2 powi (binade x + 1)"
proof -
  obtain p q where pq: "quotient_of \<bar>x\<bar> = (p, q)"
    by force
  have q: "0 < q"
    using pq by (rule quotient_of_denom_pos)
  have x: "\<bar>x\<bar> = of_int p / of_int q"
    using pq by (rule quotient_of_div)
  have "0 < \<bar>x\<bar>"
    using assms by simp
  then have p: "0 < p"
    unfolding x using q by (simp add: zero_less_divide_iff)
  define d where "d = bitlen p - bitlen q"
  have Q: "(0::rat) < of_int q"
    using q by simp
  have lo: "2 powi (d - 1) \<le> \<bar>x\<bar>"
  proof -
    have "(2::rat) powi (d - 1) * of_int q \<le> 2 powi (d - 1) * 2 powi bitlen q"
      using bitlen_powi(2) [OF q] by (intro mult_left_mono) simp_all
    also have "\<dots> = 2 powi (bitlen p - 1)"
      by (simp add: d_def flip: power_int_add)
    also have "\<dots> \<le> of_int p"
      by (rule bitlen_powi(1) [OF p])
    finally show ?thesis
      unfolding x using Q by (simp add: pos_le_divide_eq)
  qed
  have hi: "\<bar>x\<bar> < 2 powi (d + 1)"
  proof -
    have "(of_int p :: rat) < 2 powi bitlen p"
      by (rule bitlen_powi(2) [OF p])
    also have "\<dots> = 2 powi (d + 1) * 2 powi (bitlen q - 1)"
      by (simp add: d_def flip: power_int_add)
    also have "\<dots> \<le> 2 powi (d + 1) * of_int q"
      using bitlen_powi(1) [OF q] by (intro mult_left_mono) simp_all
    finally show ?thesis
      unfolding x using Q by (simp add: pos_divide_less_eq)
  qed
  have b: "binade x = (if 2 powi d \<le> \<bar>x\<bar> then d else d - 1)"
    by (simp add: binade_def pq d_def Let_def)
  show "2 powi binade x \<le> \<bar>x\<bar>"
    unfolding b using lo by simp
  show "\<bar>x\<bar> < 2 powi (binade x + 1)"
    unfolding b using hi by (simp add: not_le)
qed

lemma round_half_even_error: "\<bar>of_int (round_half_even y) - y\<bar> \<le> 1 / 2"
proof -
  have "of_int \<lfloor>y\<rfloor> \<le> y" "y < of_int \<lfloor>y\<rfloor> + 1"
    by linarith+
  then show ?thesis
    by (auto simp: round_half_even_def Let_def abs_le_iff)
qed

lemma fl_error:
  assumes "2 powi (- 1022) \<le> \<bar>x\<bar>" "\<bar>x\<bar> \<le> 2 ^ 1000"
  shows "\<exists>r. fl x = Finite r \<and> \<bar>r - x\<bar> \<le> \<bar>x\<bar> / 2 ^ 53"
proof -
  have nz: "x \<noteq> 0"
    using assms(1) by auto
  define e where "e = binade x"
  define u :: rat where "u = 2 powi (e - 52)"
  define r where "r = of_int (round_half_even (x / u)) * u"
  have e: "2 powi e \<le> \<bar>x\<bar>" "\<bar>x\<bar> < 2 powi (e + 1)"
    unfolding e_def using binade_bounds [OF nz] by simp_all
  have "(2::rat) powi (- 1022) < 2 powi (e + 1)"
    using assms(1) e(2) by simp
  then have "- 1022 < e + 1"
    using power_int_increasing [of "e + 1" "- 1022" "2::rat"] by (cases "- 1022 < e + 1") auto
  then have m: "max e (- 1022) = e"
    by simp
  have u: "0 < u"
    by (simp add: u_def)
  have "r - x = (of_int (round_half_even (x / u)) - x / u) * u"
    using u by (simp add: r_def left_diff_distrib)
  then have "\<bar>r - x\<bar> = \<bar>of_int (round_half_even (x / u)) - x / u\<bar> * u"
    using u by (simp only: abs_mult abs_of_pos)
  also have "\<dots> \<le> (1 / 2) * u"
    using u round_half_even_error [of "x / u"] by (intro mult_right_mono) simp_all
  also have "\<dots> = 2 powi e / 2 ^ 53"
    by (simp add: u_def power_int_diff)
  also have "\<dots> \<le> \<bar>x\<bar> / 2 ^ 53"
    using e(1) by (simp add: divide_right_mono)
  finally have err: "\<bar>r - x\<bar> \<le> \<bar>x\<bar> / 2 ^ 53" .
  have "\<bar>r\<bar> \<le> \<bar>x\<bar> + \<bar>x\<bar> / 2 ^ 53"
    using err by linarith
  also have "\<dots> \<le> 2 * \<bar>x\<bar>"
    by simp
  also have "\<dots> \<le> 2 * 2 ^ 1000"
    using assms(2) by simp
  also have "\<dots> \<le> DBL_MAX"
    by (simp add: DBL_MAX_def)
  finally have "\<not> DBL_MAX < \<bar>r\<bar>"
    by simp
  moreover have "max (binade x) (- 1022) = binade x"
    using m by (simp add: e_def)
  ultimately have "fl x = Finite r"
    using nz by (simp add: fl_def Let_def r_def u_def e_def)
  with err show ?thesis
    by blast
qed

lemma powi_less_cancel: "(2::rat) powi a < 2 powi b \<Longrightarrow> a < b"
  using power_int_increasing [of b a "2::rat"] by (cases "a < b") auto

lemma powi_le_abs_nonzero:
  assumes "(2::rat) powi e \<le> \<bar>x\<bar>"
  shows "x \<noteq> 0"
proof
  assume "x = 0"
  with assms have "(2::rat) powi e \<le> 0"
    by simp
  moreover have "(0::rat) < 2 powi e"
    by simp
  ultimately show False
    by linarith
qed

lemma binade_unique:
  assumes "2 powi e \<le> \<bar>x\<bar>" "\<bar>x\<bar> < 2 powi (e + 1)"
  shows "binade x = e"
proof -
  have nz: "x \<noteq> 0"
    using assms(1) by (rule powi_le_abs_nonzero)
  have "(2::rat) powi e < 2 powi (binade x + 1)"
    using assms(1) binade_bounds(2) [OF nz] by (rule le_less_trans)
  moreover have "(2::rat) powi binade x < 2 powi (e + 1)"
    using binade_bounds(1) [OF nz] assms(2) by (rule le_less_trans)
  ultimately show ?thesis
    using powi_less_cancel [of e "binade x + 1"] powi_less_cancel [of "binade x" "e + 1"]
    by simp
qed

lemma round_half_even_unique:
  assumes "\<bar>of_int m - y\<bar> < 1 / 2"
  shows "round_half_even y = m"
proof -
  have f: "of_int \<lfloor>y\<rfloor> \<le> y" "y < of_int \<lfloor>y\<rfloor> + 1"
    by linarith+
  from assms have m: "of_int m < y + 1 / 2" "y - 1 / 2 < of_int m"
    by linarith+
  have "(of_int m :: rat) < of_int \<lfloor>y\<rfloor> + 2" "of_int \<lfloor>y\<rfloor> - 1 < (of_int m :: rat)"
    using f m by linarith+
  then have "(of_int m :: rat) < of_int (\<lfloor>y\<rfloor> + 2)" "of_int (\<lfloor>y\<rfloor> - 1) < (of_int m :: rat)"
    by simp_all
  then have "m < \<lfloor>y\<rfloor> + 2" "\<lfloor>y\<rfloor> - 1 < m"
    by (simp_all only: of_int_less_iff)
  then consider "m = \<lfloor>y\<rfloor>" | "m = \<lfloor>y\<rfloor> + 1"
    by linarith
  then show ?thesis
  proof cases
    case 1
    with m have "y - of_int \<lfloor>y\<rfloor> < 1 / 2"
      by simp
    with 1 show ?thesis
      by (simp add: round_half_even_def Let_def)
  next
    case 2
    with m have "1 / 2 < y - of_int \<lfloor>y\<rfloor>"
      by simp
    with 2 show ?thesis
      by (simp add: round_half_even_def Let_def)
  qed
qed

lemma fl_eval:
  assumes "2 powi e \<le> \<bar>x\<bar>" "\<bar>x\<bar> < 2 powi (e + 1)" "- 1022 \<le> e" "e \<le> 1000"
    and "\<bar>of_int m - x / 2 powi (e - 52)\<bar> < 1 / 2"
  shows "fl x = Finite (of_int m * 2 powi (e - 52))"
proof -
  have nz: "x \<noteq> 0"
    using assms(1) by (rule powi_le_abs_nonzero)
  have b: "max (binade x) (- 1022) = e"
    using binade_unique [OF assms(1,2)] assms(3) by simp
  have r: "round_half_even (x / 2 powi (e - 52)) = m"
    using assms(5) by (rule round_half_even_unique)
  define u :: rat where "u = 2 powi (e - 52)"
  have u: "0 < u"
    by (simp add: u_def)
  have "of_int m * u - x = (of_int m - x / u) * u"
    using u by (simp add: left_diff_distrib)
  then have "\<bar>of_int m * u - x\<bar> = \<bar>of_int m - x / u\<bar> * u"
    using u by (simp only: abs_mult abs_of_pos)
  also have "\<dots> \<le> 1 * u"
    using u assms(5) by (intro mult_right_mono) (simp_all add: u_def)
  finally have "\<bar>of_int m * u\<bar> \<le> \<bar>x\<bar> + u"
    by linarith
  also have "u \<le> 2 powi (e + 1)"
    unfolding u_def by (intro power_int_increasing) simp_all
  also have "\<bar>x\<bar> \<le> 2 powi (e + 1)"
    using assms(2) by simp
  also have "(2::rat) powi (e + 1) \<le> 2 powi 1001"
    using assms(4) by (intro power_int_increasing) simp_all
  finally have "\<bar>of_int m * u\<bar> \<le> 2 * 2 ^ 1001"
    by simp
  also have "\<dots> \<le> DBL_MAX"
    by (simp add: DBL_MAX_def)
  finally have "\<not> DBL_MAX < \<bar>of_int m * u\<bar>"
    by simp
  then show ?thesis
    using nz by (simp add: fl_def Let_def b r u_def)
qed

lemma fl_of_int:
  assumes "\<bar>n\<bar> < 2 ^ 53"
  shows "fl (of_int n) = Finite (of_int n)"
proof (cases "n = 0")
  case True
  then show ?thesis
    by (simp add: fl_def)
next
  case False
  define e where "e = binade (of_int n)"
  have nz: "(of_int n :: rat) \<noteq> 0"
    using False by simp
  have e: "2 powi e \<le> \<bar>of_int n :: rat\<bar>" "\<bar>of_int n :: rat\<bar> < 2 powi (e + 1)"
    unfolding e_def using binade_bounds [OF nz] by simp_all
  have "\<bar>of_int n :: rat\<bar> < 2 powi 53"
    using assms by (simp flip: of_int_abs add: of_int_less_numeral_power_cancel_iff)
  with e(1) have "(2::rat) powi e < 2 powi 53"
    by (rule le_less_trans)
  then have e53: "e < 53"
    by (rule powi_less_cancel)
  have "1 \<le> \<bar>n\<bar>"
    using False by simp
  then have "(1::rat) \<le> \<bar>of_int n\<bar>"
    by (simp flip: of_int_abs)
  with e(2) have "(2::rat) powi 0 < 2 powi (e + 1)"
    by simp
  then have e0: "0 \<le> e"
    using powi_less_cancel [of 0 "e + 1"] by simp
  define k where "k = nat (52 - e)"
  have "e - 52 = - int k"
    using e53 by (simp add: k_def)
  then have "(2::rat) powi (e - 52) = inverse (2 ^ k)"
    by (simp only: power_int_minus power_int_of_nat)
  then have u: "(2::rat) powi (e - 52) = 1 / 2 ^ k"
    by (simp add: inverse_eq_divide)
  have q: "of_int n / (2::rat) powi (e - 52) = of_int (n * 2 ^ k)"
    unfolding u by simp
  have "fl (of_int n) = Finite (of_int (n * 2 ^ k) * 2 powi (e - 52))"
    using e e0 e53 by (intro fl_eval) (simp_all add: q)
  then show ?thesis
    unfolding u by simp
qed

lemma fl_rel:
  assumes "2 powi (- 1022) \<le> x" "x \<le> 2 ^ 1000"
  obtains r where "fl x = Finite r" "x * (1 - 1 / 2 ^ 53) \<le> r" "r \<le> x * (1 + 1 / 2 ^ 53)"
proof -
  have "(0::rat) < 2 powi (- 1022)"
    by (rule zero_less_power_int) simp
  with assms(1) have pos: "0 < x"
    by linarith
  then have ax: "\<bar>x\<bar> = x"
    by simp
  from fl_error [of x] assms obtain r where r: "fl x = Finite r" "\<bar>r - x\<bar> \<le> x / 2 ^ 53"
    unfolding ax by blast
  from r(2) have "x - x / 2 ^ 53 \<le> r" "r \<le> x + x / 2 ^ 53"
    by linarith+
  then have "x * (1 - 1 / 2 ^ 53) \<le> r" "r \<le> x * (1 + 1 / 2 ^ 53)"
    by (simp_all add: algebra_simps)
  with r(1) show ?thesis
    by (rule that)
qed

lemma static_cast_int_floor:
  assumes "of_int n \<le> x" "x < of_int n + 1" "0 \<le> n" "n < 2 ^ 31"
  shows "static_cast_int (Finite x) = Some n"
proof -
  have "0 \<le> x"
    using assms(1,3) by (meson of_int_0_le_iff order_trans)
  moreover have "\<lfloor>x\<rfloor> = n"
    using assms(1,2) by (rule floor_unique)
  ultimately show ?thesis
    using assms(3,4) by (simp add: truncate_def)
qed

lemma static_cast_int_nonneg:
  assumes "0 \<le> x" "x < 2 ^ 31"
  shows "static_cast_int (Finite x) = Some \<lfloor>x\<rfloor>"
proof -
  have "0 \<le> \<lfloor>x\<rfloor>"
    using assms(1) by simp
  moreover have "\<lfloor>x\<rfloor> < 2 ^ 31"
    using assms(2) by (simp add: floor_less_iff)
  ultimately show ?thesis
    using assms(1) by (simp add: truncate_def)
qed

section \<open>Geometry resolution\<close>

lemma derived_width_1920_1080_60:
  "static_cast_int (ddiv (dmul 60 (ddiv (Finite 1920) 1080)) (1 / 2)) = Some 213"
proof -
  have q: "ddiv (Finite 1920) 1080 = Finite (8006399337547548 / 2 ^ 52)"
    using fl_eval [of 0 "1920 / 1080" 8006399337547548] by simp
  have p: "dmul 60 (Finite (8006399337547548 / 2 ^ 52)) = Finite (7505999378950826 / 2 ^ 46)"
    using fl_eval [of 6 "60 * (8006399337547548 / 2 ^ 52)" 7505999378950826] by simp
  have r: "ddiv (Finite (7505999378950826 / 2 ^ 46)) (1 / 2) = Finite (7505999378950826 / 2 ^ 45)"
    using fl_eval [of 7 "7505999378950826 / 2 ^ 46 / (1 / 2)" 7505999378950826] by simp
  show ?thesis
    unfolding q p r by (rule static_cast_int_floor) simp_all
qed

lemma derived_width_700_500_45:
  "static_cast_int (ddiv (dmul 45 (ddiv (Finite 700) 500)) (1 / 2)) = Some 125"
proof -
  have q: "ddiv (Finite 700) 500 = Finite (6305039478318694 / 2 ^ 52)"
    using fl_eval [of 0 "700 / 500" 6305039478318694] by simp
  have p: "dmul 45 (Finite (6305039478318694 / 2 ^ 52)) = Finite (8866461766385663 / 2 ^ 47)"
    using fl_eval [of 5 "45 * (6305039478318694 / 2 ^ 52)" 8866461766385663] by simp
  have r: "ddiv (Finite (8866461766385663 / 2 ^ 47)) (1 / 2) = Finite (8866461766385663 / 2 ^ 46)"
    using fl_eval [of 6 "8866461766385663 / 2 ^ 47 / (1 / 2)" 8866461766385663] by simp
  show ?thesis
    unfolding q p r by (rule static_cast_int_floor) simp_all
qed

lemma derived_width_640_480_10:
  "static_cast_int (ddiv (dmul 10 (ddiv (Finite 640) 480)) (1 / 2)) = Some 26"
proof -
  have q: "ddiv (Finite 640) 480 = Finite (6004799503160661 / 2 ^ 52)"
    using fl_eval [of 0 "640 / 480" 6004799503160661] by simp
  have p: "dmul 10 (Finite (6004799503160661 / 2 ^ 52)) = Finite (7505999378950826 / 2 ^ 49)"
    using fl_eval [of 3 "10 * (6004799503160661 / 2 ^ 52)" 7505999378950826] by simp
  have r: "ddiv (Finite (7505999378950826 / 2 ^ 49)) (1 / 2) = Finite (7505999378950826 / 2 ^ 48)"
    using fl_eval [of 4 "7505999378950826 / 2 ^ 49 / (1 / 2)" 7505999378950826] by simp
  show ?thesis
    unfolding q p r by (rule static_cast_int_floor) simp_all
qed

lemma derived_width_close:
  fixes W H h :: int
  assumes "1 \<le> W" "W \<le> 2 ^ 16" "1 \<le> H" "H \<le> 2 ^ 16" "1 \<le> h" "h \<le> 2 ^ 10"
  shows "\<exists>d. static_cast_int
              (ddiv (dmul (of_int h) (ddiv (Finite (of_int W)) (of_int H))) (1 / 2)) = Some d
           \<and> (d = 2 * h * W div H \<or> d = 2 * h * W div H - 1) \<and> 0 \<le> d"
proof -
  define eps :: rat where "eps = 1 / 2 ^ 53"
  define a :: rat where "a = of_int W / of_int H"
  have Wr: "(1::rat) \<le> of_int W" "(of_int W :: rat) \<le> 2 ^ 16"
    using assms(1,2) by (simp_all add: of_int_le_numeral_power_cancel_iff)
  have Hr: "(1::rat) \<le> of_int H" "(of_int H :: rat) \<le> 2 ^ 16"
    using assms(3,4) by (simp_all add: of_int_le_numeral_power_cancel_iff)
  have hr: "(1::rat) \<le> of_int h" "(of_int h :: rat) \<le> 2 ^ 10"
    using assms(5,6) by (simp_all add: of_int_le_numeral_power_cancel_iff)
  have H0: "(0::rat) < of_int H" "(of_int H :: rat) \<noteq> 0"
    using Hr(1) by simp_all
  have a_lo: "1 / 2 ^ 16 \<le> a"
    unfolding a_def using Wr Hr by (intro frac_le) simp_all
  have "of_int W / of_int H \<le> (2 ^ 16 :: rat) / 1"
    using Wr Hr by (intro frac_le) simp_all
  then have a_hi: "a \<le> 2 ^ 16"
    by (simp add: a_def)
  have tiny: "(2::rat) powi (- 1022) \<le> 1 / 2 ^ 18"
    by simp
  have e1: "1 - eps = 1 - 1 / 2 ^ 53" "1 + eps = 1 + 1 / 2 ^ 53"
    by (simp_all add: eps_def)
  have eb: "1 / 2 \<le> 1 - eps" "1 + eps \<le> 2" "0 \<le> 1 - eps" "0 \<le> 1 + eps"
    by (simp_all add: eps_def)
  \<comment> \<open>first rounding: the aspect ratio\<close>
  from fl_rel [of a] a_lo a_hi tiny obtain q where
    q: "fl a = Finite q" "a * (1 - eps) \<le> q" "q \<le> a * (1 + eps)"
    unfolding e1 by (auto simp: order_trans)
  have sq: "a * (1 / 2) \<le> a * (1 - eps)" "a * (1 + eps) \<le> a * 2"
    using a_lo eb by (intro mult_left_mono; simp)+
  have "1 / 2 ^ 17 = (1 / 2 ^ 16) * (1 / 2 :: rat)"
    by simp
  also have "\<dots> \<le> a * (1 / 2)"
    using a_lo by (intro mult_right_mono) simp_all
  also note sq(1)
  also note q(2)
  finally have q_lo: "1 / 2 ^ 17 \<le> q" .
  note q(3)
  also note sq(2)
  also have "a * 2 \<le> 2 ^ 16 * 2"
    using a_hi by (intro mult_right_mono) simp_all
  finally have q_hi: "q \<le> 2 ^ 17"
    by simp
  \<comment> \<open>second rounding: the product with the height\<close>
  define x2 where "x2 = of_int h * q"
  have "1 * (1 / 2 ^ 17) \<le> of_int h * q"
    using hr q_lo by (intro mult_mono) simp_all
  then have x2_lo: "1 / 2 ^ 17 \<le> x2"
    by (simp add: x2_def)
  have "of_int h * q \<le> 2 ^ 10 * 2 ^ 17"
    using hr q_hi q_lo by (intro mult_mono) simp_all
  then have x2_hi: "x2 \<le> 2 ^ 27"
    by (simp add: x2_def)
  from fl_rel [of x2] x2_lo x2_hi tiny obtain p where
    p: "fl x2 = Finite p" "x2 * (1 - eps) \<le> p" "p \<le> x2 * (1 + eps)"
    unfolding e1 by (auto simp: order_trans)
  have sp: "x2 * (1 / 2) \<le> x2 * (1 - eps)" "x2 * (1 + eps) \<le> x2 * 2"
    using x2_lo eb by (intro mult_left_mono; simp)+
  have "1 / 2 ^ 18 = (1 / 2 ^ 17) * (1 / 2 :: rat)"
    by simp
  also have "\<dots> \<le> x2 * (1 / 2)"
    using x2_lo by (intro mult_right_mono) simp_all
  also note sp(1)
  also note p(2)
  finally have p_lo: "1 / 2 ^ 18 \<le> p" .
  note p(3)
  also note sp(2)
  also have "x2 * 2 \<le> 2 ^ 27 * 2"
    using x2_hi by (intro mult_right_mono) simp_all
  finally have p_hi: "p \<le> 2 ^ 28"
    by simp
  \<comment> \<open>third rounding: the division by the character aspect\<close>
  define x3 where "x3 = p / (1 / 2)"
  have x3: "x3 = 2 * p"
    by (simp add: x3_def)
  have "x3 \<le> 2 * 2 ^ 28"
    unfolding x3 using p_hi by (intro mult_left_mono) simp_all
  also have "\<dots> \<le> (2::rat) ^ 1000"
    by simp
  finally have x3_hi: "x3 \<le> 2 ^ 1000" .
  have "0 \<le> p"
    using p_lo by (rule order_trans [rotated]) simp
  then have "p \<le> x3"
    unfolding x3 by simp
  with p_lo have x3_lo: "1 / 2 ^ 18 \<le> x3"
    by (rule order_trans)
  from fl_rel [of x3] x3_lo x3_hi tiny obtain r where
    r: "fl x3 = Finite r" "x3 * (1 - eps) \<le> r" "r \<le> x3 * (1 + eps)"
    unfolding e1 by (auto simp: order_trans)
  have run: "ddiv (dmul (of_int h) (ddiv (Finite (of_int W)) (of_int H))) (1 / 2) = Finite r"
    using H0 q(1) p(1) r(1) by (simp add: a_def x2_def x3_def)
  \<comment> \<open>the accumulated error\<close>
  define E where "E = 2 * of_int h * a"
  have E0: "0 \<le> E"
    using hr a_lo by (simp add: E_def)
  have up: "r \<le> E * ((1 + eps) * (1 + eps) * (1 + eps))"
  proof -
    have "x2 \<le> of_int h * (a * (1 + eps))"
      unfolding x2_def using hr q(3) by (intro mult_left_mono) simp_all
    then have "x2 * (1 + eps) \<le> of_int h * (a * (1 + eps)) * (1 + eps)"
      using eb by (intro mult_right_mono) simp_all
    with p(3) have "p \<le> of_int h * (a * (1 + eps)) * (1 + eps)"
      by simp
    then have "2 * p * (1 + eps) \<le> 2 * (of_int h * (a * (1 + eps)) * (1 + eps)) * (1 + eps)"
      using eb by (intro mult_right_mono mult_left_mono) simp_all
    with r(3) show ?thesis
      unfolding x3 E_def by (simp add: mult_ac)
  qed
  have low: "E * ((1 - eps) * (1 - eps) * (1 - eps)) \<le> r"
  proof -
    have "of_int h * (a * (1 - eps)) \<le> x2"
      unfolding x2_def using hr q(2) by (intro mult_left_mono) simp_all
    then have "of_int h * (a * (1 - eps)) * (1 - eps) \<le> x2 * (1 - eps)"
      using eb by (intro mult_right_mono) simp_all
    with p(2) have "of_int h * (a * (1 - eps)) * (1 - eps) \<le> p"
      by simp
    then have "2 * (of_int h * (a * (1 - eps)) * (1 - eps)) * (1 - eps) \<le> 2 * p * (1 - eps)"
      using eb by (intro mult_right_mono mult_left_mono) simp_all
    with r(2) show ?thesis
      unfolding x3 E_def by (simp add: mult_ac)
  qed
  have "(1 + eps) * (1 + eps) * (1 + eps) \<le> 1 + 4 * eps"
    "1 - 3 * eps \<le> (1 - eps) * (1 - eps) * (1 - eps)"
    by (simp_all add: eps_def)
  then have "E * ((1 + eps) * (1 + eps) * (1 + eps)) \<le> E * (1 + 4 * eps)"
    "E * (1 - 3 * eps) \<le> E * ((1 - eps) * (1 - eps) * (1 - eps))"
    using E0 by (intro mult_left_mono; simp)+
  with up low have r_up: "r \<le> E + 4 * eps * E" and r_low: "E - 3 * eps * E \<le> r"
    by (simp_all add: algebra_simps)
  \<comment> \<open>the exact value and its floor\<close>
  define N where "N = 2 * h * W"
  define n where "n = N div H"
  define m where "m = N mod H"
  have EN: "E = of_int N / of_int H"
    by (simp add: E_def a_def N_def)
  define hw where "hw = h * W"
  have "h * W \<le> 2 ^ 10 * 2 ^ 16"
    using assms by (intro mult_mono) simp_all
  then have hW: "hw \<le> 67108864"
    unfolding hw_def by simp
  have "1 * 1 \<le> h * W"
    using assms by (intro mult_mono) simp_all
  then have hW1: "1 \<le> hw"
    unfolding hw_def by simp
  have N2: "N = 2 * hw"
    by (simp add: N_def hw_def)
  have N_hi: "N \<le> 2 ^ 27"
    unfolding N2 using hW by simp
  have N_lo: "2 \<le> N"
    unfolding N2 using hW1 by simp
  from N_hi have Nr: "(of_int N :: rat) \<le> 2 ^ 27"
    by (simp add: of_int_le_numeral_power_cancel_iff)
  have nm: "N = n * H + m" "0 \<le> m" "m \<le> H - 1"
    using assms(3) by (simp_all add: n_def m_def)
  have n0: "0 \<le> n"
    using assms(3) N_lo by (simp add: n_def pos_imp_zdiv_nonneg_iff)
  then have "n * 1 \<le> n * H"
    using assms(3) by (intro mult_left_mono) simp_all
  with nm N_hi have n_hi: "n \<le> 2 ^ 27"
    by simp
  have "(of_int N :: rat) = of_int (n * H + m)"
    using nm(1) by simp
  then have En: "E = of_int n + of_int m / of_int H"
    unfolding EN using H0 by (simp add: field_simps)
  have "(of_int 0 :: rat) \<le> of_int m" "(of_int m :: rat) \<le> of_int (H - 1)"
    using nm(2,3) by (simp_all only: of_int_le_iff)
  then have mr: "(0::rat) \<le> of_int m" "(of_int m :: rat) \<le> of_int H - 1"
    by simp_all
  have frac: "0 \<le> of_int m / (of_int H :: rat)" "of_int m / (of_int H :: rat) \<le> 1 - 1 / of_int H"
    using H0 mr by (simp_all add: field_simps)
  have "4 * eps * E = (8 * of_int hw / 2 ^ 53) / of_int H"
    by (simp add: eps_def E_def a_def hw_def)
  also have "\<dots> < 1 / of_int H"
  proof -
    have "(of_int hw :: rat) \<le> of_int 67108864"
      using hW by (simp only: of_int_le_iff)
    then have "8 * of_int hw / 2 ^ 53 < (1::rat)"
      by simp
    then show ?thesis
      using H0 by (intro divide_strict_right_mono) simp_all
  qed
  finally have err_up: "4 * eps * E < 1 / of_int H" .
  have "(0::rat) \<le> of_int N"
    using N_lo by simp
  then have "of_int N / of_int H \<le> (2 ^ 27 :: rat) / 1"
    using Nr Hr by (intro frac_le) simp_all
  then have E_hi: "E \<le> 2 ^ 27"
    by (simp add: EN)
  have "3 * eps * E \<le> 3 * eps * 2 ^ 27"
    using E_hi by (intro mult_left_mono) (simp_all add: eps_def)
  also have "\<dots> < 1"
    by (simp add: eps_def)
  finally have err_low: "3 * eps * E < 1" .
  have r_lt: "r < of_int n + 1"
    using r_up err_up frac(2) En by linarith
  have r_gt: "of_int n - 1 < r"
    using r_low err_low frac(1) En by linarith
  have "0 < x3"
    using x3_lo by (rule less_le_trans [rotated]) simp
  moreover have "0 < 1 - eps"
    by (simp add: eps_def)
  ultimately have "0 < x3 * (1 - eps)"
    by (rule mult_pos_pos)
  then have r_pos: "0 < r"
    using r(2) by (rule less_le_trans)
  show ?thesis
  proof (cases "of_int n \<le> r")
    case True
    then have "static_cast_int (Finite r) = Some n"
      using r_lt n0 n_hi by (intro static_cast_int_floor) simp_all
    then show ?thesis
      unfolding run using n0 by (simp add: n_def N_def)
  next
    case False
    then have lt: "r < of_int n"
      by simp
    with r_pos have "(of_int 0 :: rat) < of_int n"
      by simp
    then have n1: "1 \<le> n"
      by (simp only: of_int_less_iff)
    have "of_int (n - 1) \<le> r" "r < of_int (n - 1) + 1"
      using r_gt lt by simp_all
    then have "static_cast_int (Finite r) = Some (n - 1)"
      using n1 n_hi by (intro static_cast_int_floor) simp_all
    then show ?thesis
      unfolding run using n1 by (simp add: n_def N_def)
  qed
qed

lemma clamp_bounds:
  assumes "lo \<le> hi"
  shows "lo \<le> clamp v lo hi" "clamp v lo hi \<le> hi"
  using assms by (simp_all add: clamp_def)

lemma getTargetDimensions_bounds:
  assumes "getTargetDimensions videoWidth videoHeight opts = Some opts'"
  shows "MIN_HEIGHT \<le> targetHeight opts' \<and> targetHeight opts' \<le> MAX_HEIGHT
    \<and> MIN_WIDTH \<le> targetWidth opts' \<and> targetWidth opts' \<le> MAX_WIDTH"
proof -
  from assms obtain w where
    "opts' = opts\<lparr>targetHeight := clamp (targetHeight opts) MIN_HEIGHT MAX_HEIGHT,
                   targetWidth := clamp w MIN_WIDTH MAX_WIDTH\<rparr>"
    by (auto simp: getTargetDimensions_def Let_def split: option.splits if_splits)
  then show ?thesis
    by (simp add: clamp_bounds MIN_HEIGHT_def MAX_HEIGHT_def MIN_WIDTH_def MAX_WIDTH_def)
qed

lemma getTargetDimensions_unset:
  assumes "targetWidth opts \<le> 0"
    and "static_cast_int (ddiv (dmul (of_int (targetHeight opts))
            (ddiv (Finite videoWidth) videoHeight)) (1 / 2)) = Some d"
  shows "getTargetDimensions videoWidth videoHeight opts =
     Some (opts\<lparr>targetHeight := clamp (targetHeight opts) MIN_HEIGHT MAX_HEIGHT,
                targetWidth := clamp d MIN_WIDTH MAX_WIDTH\<rparr>)"
  using assms by (simp add: getTargetDimensions_def Let_def)

lemma exact_width_floor:
  "\<lfloor>of_int h * (of_int W / of_int H) / (1 / 2) :: rat\<rfloor> = 2 * h * W div H"
proof -
  have "of_int h * (of_int W / of_int H) / (1 / 2) = (of_int (2 * h * W) :: rat) / of_int H"
    by simp
  then show ?thesis
    by (simp only: floor_divide_of_int_eq)
qed

text \<open>
  Claim C3, as stated, fails. It says that with the width unset the resolver computes
  \<open>width = floor(height * (pixelWidth / pixelHeight) / 0.5)\<close>. The source evaluates
  this expression in double precision, rounding after each of the three operations, and
  truncates the result. For a source of 700 by 500 pixels and the requested height 45,
  the quotient \<open>700 / 500\<close> is rounded down to the double just below \<open>1.4\<close>, the
  product with 45 to the double just below 63, and the width resolved is 125, whereas
  \<open>floor(45 * (700 / 500) / 0.5) = 126\<close>.
\<close>

theorem geometry_exact_floor_counterexample:
  "map_option targetWidth
     (getTargetDimensions 700 500
        \<lparr>videoPath = ''v'', colorMode = None_mode, targetHeight = 45, targetWidth = 0,
           framerate = - 1\<rparr>) = Some 125
   \<and> clamp \<lfloor>45 * (700 / 500) / (1 / 2) :: rat\<rfloor> MIN_WIDTH MAX_WIDTH = 126
   \<and> map_option targetWidth
     (getTargetDimensions 700 500
        \<lparr>videoPath = ''v'', colorMode = None_mode, targetHeight = 45, targetWidth = 0,
           framerate = - 1\<rparr>)
     \<noteq> Some (clamp \<lfloor>45 * (700 / 500) / (1 / 2) :: rat\<rfloor> MIN_WIDTH MAX_WIDTH)"
proof -
  let ?o = "\<lparr>videoPath = ''v'', colorMode = None_mode, targetHeight = 45, targetWidth = 0,
    framerate = - 1\<rparr>"
  have "\<lfloor>45 * (700 / 500) / (1 / 2) :: rat\<rfloor> = 126"
    using exact_width_floor [of 45 700 500] by simp
  moreover have "getTargetDimensions 700 500 ?o =
      Some (?o\<lparr>targetHeight := clamp (targetHeight ?o) MIN_HEIGHT MAX_HEIGHT,
                 targetWidth := clamp 125 MIN_WIDTH MAX_WIDTH\<rparr>)"
  proof (rule getTargetDimensions_unset)
    show "targetWidth ?o \<le> 0"
      by simp
    show "static_cast_int (ddiv (dmul (of_int (targetHeight ?o)) (ddiv (Finite 700) 500)) (1 / 2)) =
        Some 125"
      using derived_width_700_500_45 by simp
  qed
  ultimately show ?thesis
    by (simp add: clamp_def MIN_WIDTH_def MAX_WIDTH_def)
qed

text \<open>
  Claim C3, amended. When the target width is unset (not positive), the resolver
  evaluates \<open>height * (pixelWidth / pixelHeight) / 0.5\<close> in double precision from the
  requested height as it is before clamping, and truncates: for pixel dimensions between
  1 and 65536 and a requested height between 1 and 1024 the conversion to \<open>int\<close> is
  defined and the derived width is the floor of the exact value or one less. Only
  afterwards the height is clamped to \<open>[20,120]\<close> and the width to \<open>[40,200]\<close>,
  independently; a width that was supplied is only clamped. The pair resolved always
  lies within these bounds and there is no error path: this holds for every input, also
  where the derived value has no \<open>int\<close> value (as for a reported height of 0), whatever
  \<open>int\<close> the conversion yields there, since that is clamped like any other. For a
  source of 1920 by 1080 pixels (16:9) and the requested height 60 the derived width is
  213 and is clamped to 200. For a source of 640 by 480 pixels and the height 10 the
  derived width is 26, from the height 10 and not from the clamped height 20 (which
  would give 53), so that the pair resolved is 20 by 40. For a reported height of 0 and
  the requested height 60, with the conversion yielding the smallest \<open>int\<close>, the pair
  resolved is 60 by 40.
\<close>

theorem geometry_resolution:
  "(1 \<le> W \<and> W \<le> 2 ^ 16 \<and> 1 \<le> H \<and> H \<le> 2 ^ 16
      \<and> 1 \<le> targetHeight opts \<and> targetHeight opts \<le> 2 ^ 10 \<and> targetWidth opts \<le> 0 \<longrightarrow>
      (\<exists>d. static_cast_int
              (ddiv (dmul (of_int (targetHeight opts)) (ddiv (Finite (of_int W)) (of_int H)))
                 (1 / 2)) = Some d
         \<and> (d = \<lfloor>of_int (targetHeight opts) * (of_int W / of_int H) / (1 / 2) :: rat\<rfloor>
              \<or> d = \<lfloor>of_int (targetHeight opts) * (of_int W / of_int H) / (1 / 2) :: rat\<rfloor> - 1)
         \<and> getTargetDimensions (of_int W) (of_int H) opts =
             Some (opts\<lparr>targetHeight := clamp (targetHeight opts) MIN_HEIGHT MAX_HEIGHT,
                        targetWidth := clamp d MIN_WIDTH MAX_WIDTH\<rparr>)))
   \<and> (0 < targetWidth opts \<longrightarrow>
        getTargetDimensions videoWidth videoHeight opts =
          Some (opts\<lparr>targetHeight := clamp (targetHeight opts) MIN_HEIGHT MAX_HEIGHT,
                     targetWidth := clamp (targetWidth opts) MIN_WIDTH MAX_WIDTH\<rparr>))
   \<and> (getTargetDimensions videoWidth videoHeight opts = Some opts' \<longrightarrow>
        20 \<le> targetHeight opts' \<and> targetHeight opts' \<le> 120
        \<and> 40 \<le> targetWidth opts' \<and> targetWidth opts' \<le> 200)
   \<and> (getTargetDimensions videoWidth videoHeight opts = Some opts' \<longrightarrow>
        getTargetDimensions_or unrepresentable videoWidth videoHeight opts = opts')
   \<and> 20 \<le> targetHeight (getTargetDimensions_or unrepresentable videoWidth videoHeight opts)
   \<and> targetHeight (getTargetDimensions_or unrepresentable videoWidth videoHeight opts) \<le> 120
   \<and> 40 \<le> targetWidth (getTargetDimensions_or unrepresentable videoWidth videoHeight opts)
   \<and> targetWidth (getTargetDimensions_or unrepresentable videoWidth videoHeight opts) \<le> 200
   \<and> targetHeight (getTargetDimensions_or unrepresentable videoWidth videoHeight opts) =
       clamp (targetHeight opts) 20 120
   \<and> getTargetDimensions 1920 0
        \<lparr>videoPath = ''v'', colorMode = None_mode, targetHeight = 60, targetWidth = 0,
           framerate = - 1\<rparr> = None
   \<and> getTargetDimensions_or (- (2 ^ 31)) 1920 0
        \<lparr>videoPath = ''v'', colorMode = None_mode, targetHeight = 60, targetWidth = 0,
           framerate = - 1\<rparr> =
       \<lparr>videoPath = ''v'', colorMode = None_mode, targetHeight = 60, targetWidth = 40,
          framerate = - 1\<rparr>
   \<and> static_cast_int (ddiv (dmul 60 (ddiv (Finite 1920) 1080)) (1 / 2)) = Some 213
   \<and> getTargetDimensions 1920 1080
        \<lparr>videoPath = ''v'', colorMode = None_mode, targetHeight = 60, targetWidth = 0,
           framerate = - 1\<rparr> =
       Some \<lparr>videoPath = ''v'', colorMode = None_mode, targetHeight = 60, targetWidth = 200,
              framerate = - 1\<rparr>
   \<and> static_cast_int (ddiv (dmul 10 (ddiv (Finite 640) 480)) (1 / 2)) = Some 26
   \<and> getTargetDimensions 640 480
        \<lparr>videoPath = ''v'', colorMode = None_mode, targetHeight = 10, targetWidth = 0,
           framerate = - 1\<rparr> =
       Some \<lparr>videoPath = ''v'', colorMode = None_mode, targetHeight = 20, targetWidth = 40,
              framerate = - 1\<rparr>"
proof -
  have general: "\<exists>d. static_cast_int
              (ddiv (dmul (of_int (targetHeight opts)) (ddiv (Finite (of_int W)) (of_int H)))
                 (1 / 2)) = Some d
         \<and> (d = \<lfloor>of_int (targetHeight opts) * (of_int W / of_int H) / (1 / 2) :: rat\<rfloor>
              \<or> d = \<lfloor>of_int (targetHeight opts) * (of_int W / of_int H) / (1 / 2) :: rat\<rfloor> - 1)
         \<and> getTargetDimensions (of_int W) (of_int H) opts =
             Some (opts\<lparr>targetHeight := clamp (targetHeight opts) MIN_HEIGHT MAX_HEIGHT,
                        targetWidth := clamp d MIN_WIDTH MAX_WIDTH\<rparr>)"
    if "1 \<le> W" "W \<le> 2 ^ 16" "1 \<le> H" "H \<le> 2 ^ 16"
      "1 \<le> targetHeight opts" "targetHeight opts \<le> 2 ^ 10" "targetWidth opts \<le> 0"
  proof -
    from derived_width_close [OF that(1-6)] obtain d where
      d: "static_cast_int
            (ddiv (dmul (of_int (targetHeight opts)) (ddiv (Finite (of_int W)) (of_int H)))
               (1 / 2)) = Some d"
        "d = 2 * targetHeight opts * W div H \<or> d = 2 * targetHeight opts * W div H - 1"
      by blast
    show ?thesis
      unfolding exact_width_floor
      using d getTargetDimensions_unset [OF that(7) d(1)] by blast
  qed
  have bounds: "20 \<le> targetHeight opts' \<and> targetHeight opts' \<le> 120
        \<and> 40 \<le> targetWidth opts' \<and> targetWidth opts' \<le> 200"
    if "getTargetDimensions videoWidth videoHeight opts = Some opts'"
    using getTargetDimensions_bounds [OF that]
    by (simp add: MIN_HEIGHT_def MAX_HEIGHT_def MIN_WIDTH_def MAX_WIDTH_def)
  let ?a = "\<lparr>videoPath = ''v'', colorMode = None_mode, targetHeight = 60, targetWidth = 0,
    framerate = - 1\<rparr>"
  have "getTargetDimensions 1920 1080 ?a =
      Some (?a\<lparr>targetHeight := clamp (targetHeight ?a) MIN_HEIGHT MAX_HEIGHT,
                 targetWidth := clamp 213 MIN_WIDTH MAX_WIDTH\<rparr>)"
  proof (rule getTargetDimensions_unset)
    show "targetWidth ?a \<le> 0"
      by simp
    show "static_cast_int (ddiv (dmul (of_int (targetHeight ?a)) (ddiv (Finite 1920) 1080)) (1 / 2)) =
        Some 213"
      using derived_width_1920_1080_60 by simp
  qed
  then have ex1: "getTargetDimensions 1920 1080 ?a =
       Some \<lparr>videoPath = ''v'', colorMode = None_mode, targetHeight = 60, targetWidth = 200,
              framerate = - 1\<rparr>"
    by (simp add: clamp_def MIN_HEIGHT_def MAX_HEIGHT_def MIN_WIDTH_def MAX_WIDTH_def)
  let ?b = "\<lparr>videoPath = ''v'', colorMode = None_mode, targetHeight = 10, targetWidth = 0,
    framerate = - 1\<rparr>"
  have "getTargetDimensions 640 480 ?b =
      Some (?b\<lparr>targetHeight := clamp (targetHeight ?b) MIN_HEIGHT MAX_HEIGHT,
                 targetWidth := clamp 26 MIN_WIDTH MAX_WIDTH\<rparr>)"
  proof (rule getTargetDimensions_unset)
    show "targetWidth ?b \<le> 0"
      by simp
    show "static_cast_int (ddiv (dmul (of_int (targetHeight ?b)) (ddiv (Finite 640) 480)) (1 / 2)) =
        Some 26"
      using derived_width_640_480_10 by simp
  qed
  then have ex2: "getTargetDimensions 640 480 ?b =
       Some \<lparr>videoPath = ''v'', colorMode = None_mode, targetHeight = 20, targetWidth = 40,
              framerate = - 1\<rparr>"
    by (simp add: clamp_def MIN_HEIGHT_def MAX_HEIGHT_def MIN_WIDTH_def MAX_WIDTH_def)
  have c1: "1 \<le> W \<and> W \<le> 2 ^ 16 \<and> 1 \<le> H \<and> H \<le> 2 ^ 16
      \<and> 1 \<le> targetHeight opts \<and> targetHeight opts \<le> 2 ^ 10 \<and> targetWidth opts \<le> 0 \<longrightarrow>
      (\<exists>d. static_cast_int
              (ddiv (dmul (of_int (targetHeight opts)) (ddiv (Finite (of_int W)) (of_int H)))
                 (1 / 2)) = Some d
         \<and> (d = \<lfloor>of_int (targetHeight opts) * (of_int W / of_int H) / (1 / 2) :: rat\<rfloor>
              \<or> d = \<lfloor>of_int (targetHeight opts) * (of_int W / of_int H) / (1 / 2) :: rat\<rfloor> - 1)
         \<and> getTargetDimensions (of_int W) (of_int H) opts =
             Some (opts\<lparr>targetHeight := clamp (targetHeight opts) MIN_HEIGHT MAX_HEIGHT,
                        targetWidth := clamp d MIN_WIDTH MAX_WIDTH\<rparr>))"
    using general by (intro impI) (elim conjE)
  have c2: "getTargetDimensions videoWidth videoHeight opts = Some opts' \<longrightarrow>
        20 \<le> targetHeight opts' \<and> targetHeight opts' \<le> 120
        \<and> 40 \<le> targetWidth opts' \<and> targetWidth opts' \<le> 200"
    using bounds by (intro impI)
  have c0: "0 < targetWidth opts \<longrightarrow>
        getTargetDimensions videoWidth videoHeight opts =
          Some (opts\<lparr>targetHeight := clamp (targetHeight opts) MIN_HEIGHT MAX_HEIGHT,
                     targetWidth := clamp (targetWidth opts) MIN_WIDTH MAX_WIDTH\<rparr>)"
    by (simp add: getTargetDimensions_def Let_def)
  have c3: "getTargetDimensions videoWidth videoHeight opts = Some opts' \<longrightarrow>
        getTargetDimensions_or unrepresentable videoWidth videoHeight opts = opts'"
    by (auto simp: getTargetDimensions_def getTargetDimensions_or_def static_cast_int_or_def
        Let_def split: option.splits if_splits)
  let ?r = "getTargetDimensions_or unrepresentable videoWidth videoHeight opts"
  have t: "20 \<le> targetHeight ?r" "targetHeight ?r \<le> 120"
    "40 \<le> targetWidth ?r" "targetWidth ?r \<le> 200"
    "targetHeight ?r = clamp (targetHeight opts) 20 120"
    by (simp_all add: getTargetDimensions_or_def Let_def clamp_def
        MIN_HEIGHT_def MAX_HEIGHT_def MIN_WIDTH_def MAX_WIDTH_def)
  let ?z = "\<lparr>videoPath = ''v'', colorMode = None_mode, targetHeight = 60, targetWidth = 0,
    framerate = - 1\<rparr>"
  have z1: "getTargetDimensions 1920 0 ?z = None"
    by (simp add: getTargetDimensions_def Let_def)
  have z2: "getTargetDimensions_or (- (2 ^ 31)) 1920 0 ?z =
       \<lparr>videoPath = ''v'', colorMode = None_mode, targetHeight = 60, targetWidth = 40,
          framerate = - 1\<rparr>"
    by (simp add: getTargetDimensions_or_def static_cast_int_or_def Let_def clamp_def
        MIN_HEIGHT_def MAX_HEIGHT_def MIN_WIDTH_def MAX_WIDTH_def)
  show ?thesis
    using c0 c1 c2 c3 t z1 z2 ex1 ex2 derived_width_1920_1080_60 derived_width_640_480_10
    by (intro conjI) assumption+
qed

theorem geometry_resolution_witness:
  "(1::int) \<le> 1920 \<and> (1920::int) \<le> 2 ^ 16 \<and> (1::int) \<le> 1080 \<and> (1080::int) \<le> 2 ^ 16
   \<and> (1::int) \<le> 60 \<and> (60::int) \<le> 2 ^ 10 \<and> (0::int) \<le> 0
   \<and> (213 = \<lfloor>60 * (1920 / 1080) / (1 / 2) :: rat\<rfloor>
        \<or> 213 = \<lfloor>60 * (1920 / 1080) / (1 / 2) :: rat\<rfloor> - 1)
   \<and> getTargetDimensions 1920 1080
        \<lparr>videoPath = ''v'', colorMode = None_mode, targetHeight = 60, targetWidth = 0,
           framerate = - 1\<rparr> =
       Some \<lparr>videoPath = ''v'', colorMode = None_mode, targetHeight = 60, targetWidth = 200,
              framerate = - 1\<rparr>
   \<and> (20::int) \<le> 60 \<and> (60::int) \<le> 120 \<and> (40::int) \<le> 200 \<and> (200::int) \<le> 200
   \<and> getTargetDimensions_or 0 1920 1080
        \<lparr>videoPath = ''v'', colorMode = None_mode, targetHeight = 60, targetWidth = 0,
           framerate = - 1\<rparr> =
       \<lparr>videoPath = ''v'', colorMode = None_mode, targetHeight = 60, targetWidth = 200,
          framerate = - 1\<rparr>"
proof -
  let ?a = "\<lparr>videoPath = ''v'', colorMode = None_mode, targetHeight = 60, targetWidth = 0,
    framerate = - 1\<rparr>"
  let ?b = "\<lparr>videoPath = ''v'', colorMode = None_mode, targetHeight = 60, targetWidth = 200,
    framerate = - 1\<rparr>"
  note g = geometry_resolution [where W = 1920 and H = 1080 and opts = ?a
      and videoWidth = 1920 and videoHeight = 1080 and opts' = ?b and unrepresentable = 0]
  note examples = g [THEN conjunct2, THEN conjunct2, THEN conjunct2, THEN conjunct2,
      THEN conjunct2, THEN conjunct2, THEN conjunct2, THEN conjunct2, THEN conjunct2,
      THEN conjunct2, THEN conjunct2]
  from examples have d:
    "static_cast_int (ddiv (dmul 60 (ddiv (Finite 1920) 1080)) (1 / 2)) = Some 213"
    by (rule conjunct1)
  from examples have run: "getTargetDimensions 1920 1080 ?a = Some ?b"
    by (rule conjunct2 [THEN conjunct1])
  from g [THEN conjunct2, THEN conjunct2, THEN conjunct2, THEN conjunct1] run
  have total: "getTargetDimensions_or 0 1920 1080 ?a = ?b"
    by (rule mp)
  from g have "\<exists>d. static_cast_int
              (ddiv (dmul (of_int (targetHeight ?a)) (ddiv (Finite (of_int 1920)) (of_int 1080)))
                 (1 / 2)) = Some d
         \<and> (d = \<lfloor>of_int (targetHeight ?a) * (of_int 1920 / of_int 1080) / (1 / 2) :: rat\<rfloor>
              \<or> d = \<lfloor>of_int (targetHeight ?a) * (of_int 1920 / of_int 1080) / (1 / 2) :: rat\<rfloor> - 1)
         \<and> getTargetDimensions (of_int 1920) (of_int 1080) ?a =
             Some (?a\<lparr>targetHeight := clamp (targetHeight ?a) MIN_HEIGHT MAX_HEIGHT,
                        targetWidth := clamp d MIN_WIDTH MAX_WIDTH\<rparr>)"
    by (rule conjunct1 [THEN mp]) simp
  then obtain d where
    "static_cast_int (ddiv (dmul (of_int (targetHeight ?a)) (ddiv (Finite (of_int 1920)) (of_int 1080)))
                 (1 / 2)) = Some d"
    and fl: "d = \<lfloor>of_int (targetHeight ?a) * (of_int 1920 / of_int 1080) / (1 / 2) :: rat\<rfloor>
      \<or> d = \<lfloor>of_int (targetHeight ?a) * (of_int 1920 / of_int 1080) / (1 / 2) :: rat\<rfloor> - 1"
    by blast
  with d have "d = 213"
    by simp
  with fl have "213 = \<lfloor>60 * (1920 / 1080) / (1 / 2) :: rat\<rfloor>
        \<or> 213 = \<lfloor>60 * (1920 / 1080) / (1 / 2) :: rat\<rfloor> - 1"
    by simp
  moreover from g run have "20 \<le> targetHeight ?b \<and> targetHeight ?b \<le> 120
      \<and> 40 \<le> targetWidth ?b \<and> targetWidth ?b \<le> 200"
    by blast
  ultimately show ?thesis
    using run total by simp
qed

section \<open>The delay between frames\<close>

lemma fl_1000_30: "fl (1000 / 30) = Finite (4691249611844267 / 2 ^ 47)"
  using fl_eval [of 5 "1000 / 30" 4691249611844267] by simp

lemma delay_accuracy:
  assumes "1 / 1000 \<le> rate" "rate \<le> 1000"
  shows "\<exists>d. ddiv (Finite 1000) rate = Finite d \<and> \<bar>d - 1000 / rate\<bar> \<le> 1000 / rate / 2 ^ 53"
proof -
  have pos: "0 < rate"
    using assms(1) by simp
  have "1000 / rate \<le> 1000 / (1 / 1000)"
    using assms(1) by (intro divide_left_mono) simp_all
  then have hi: "1000 / rate \<le> 2 ^ 1000"
    by simp
  have "1000 / 1000 \<le> 1000 / rate"
    using assms(2) pos by (intro divide_left_mono) simp_all
  then have one: "1 \<le> 1000 / rate"
    by simp
  moreover have "(2::rat) powi (- 1022) \<le> 1"
    by simp
  ultimately have lo: "2 powi (- 1022) \<le> 1000 / rate"
    by linarith
  have a: "\<bar>1000 / rate\<bar> = 1000 / rate"
    using pos by simp
  show ?thesis
    using fl_error [of "1000 / rate"] lo hi pos unfolding a by simp
qed

text \<open>
  Claim C5. The delay per frame is what \<open>getDelayMs\<close> returns, computed before
  playback and handed to \<open>animateAscii\<close> as a value. If a frame rate \<open>r\<close> was given
  (the field is not \<open>-1\<close>), the delay is the double quotient \<open>1000 / r\<close> milliseconds,
  the double nearest to the exact quotient; for \<open>r = 25\<close> it is exactly 40. Otherwise
  the delay is \<open>1000 / fps\<close> for the frame rate that the source reports when that is
  positive, and \<open>1000 / 30\<close> when it is not positive.
\<close>

theorem delay_derivation:
  "(framerate opts \<noteq> - 1 \<and> framerate opts \<noteq> 0 \<longrightarrow>
      getDelayMs cap_fps opts = fl (1000 / of_int (framerate opts)))
   \<and> (1 \<le> framerate opts \<and> framerate opts \<le> 120 \<longrightarrow>
      (\<exists>d. getDelayMs cap_fps opts = Finite d
         \<and> \<bar>d - 1000 / of_int (framerate opts)\<bar> \<le> 1000 / of_int (framerate opts) / 2 ^ 53))
   \<and> (framerate opts = 25 \<longrightarrow> getDelayMs cap_fps opts = Finite 40)
   \<and> (framerate opts = - 1 \<and> 0 < cap_fps \<longrightarrow> getDelayMs cap_fps opts = fl (1000 / cap_fps))
   \<and> (framerate opts = - 1 \<and> 1 / 1000 \<le> cap_fps \<and> cap_fps \<le> 1000 \<longrightarrow>
      (\<exists>d. getDelayMs cap_fps opts = Finite d
         \<and> \<bar>d - 1000 / cap_fps\<bar> \<le> 1000 / cap_fps / 2 ^ 53))
   \<and> (framerate opts = - 1 \<and> cap_fps \<le> 0 \<longrightarrow>
      getDelayMs cap_fps opts = fl (1000 / 30)
      \<and> (\<exists>d. getDelayMs cap_fps opts = Finite d \<and> \<bar>d - 1000 / 30\<bar> \<le> 1000 / 30 / 2 ^ 53))"
proof -
  have c1: "framerate opts \<noteq> - 1 \<and> framerate opts \<noteq> 0 \<longrightarrow>
      getDelayMs cap_fps opts = fl (1000 / of_int (framerate opts))"
    by (simp add: getDelayMs_def)
  have c2: "1 \<le> framerate opts \<and> framerate opts \<le> 120 \<longrightarrow>
      (\<exists>d. getDelayMs cap_fps opts = Finite d
         \<and> \<bar>d - 1000 / of_int (framerate opts)\<bar> \<le> 1000 / of_int (framerate opts) / 2 ^ 53)"
  proof
    assume r: "1 \<le> framerate opts \<and> framerate opts \<le> 120"
    then have "(1::rat) \<le> of_int (framerate opts)" "(of_int (framerate opts) :: rat) \<le> 120"
      by simp_all
    then have "1 / 1000 \<le> (of_int (framerate opts) :: rat)" "(of_int (framerate opts) :: rat) \<le> 1000"
      by linarith+
    from delay_accuracy [OF this] r show "\<exists>d. getDelayMs cap_fps opts = Finite d
         \<and> \<bar>d - 1000 / of_int (framerate opts)\<bar> \<le> 1000 / of_int (framerate opts) / 2 ^ 53"
      by (simp add: getDelayMs_def)
  qed
  have c3: "framerate opts = 25 \<longrightarrow> getDelayMs cap_fps opts = Finite 40"
    using fl_of_int [of 40] by (simp add: getDelayMs_def)
  have c4: "framerate opts = - 1 \<and> 0 < cap_fps \<longrightarrow> getDelayMs cap_fps opts = fl (1000 / cap_fps)"
    by (simp add: getDelayMs_def)
  have c5: "framerate opts = - 1 \<and> 1 / 1000 \<le> cap_fps \<and> cap_fps \<le> 1000 \<longrightarrow>
      (\<exists>d. getDelayMs cap_fps opts = Finite d
         \<and> \<bar>d - 1000 / cap_fps\<bar> \<le> 1000 / cap_fps / 2 ^ 53)"
  proof
    assume a: "framerate opts = - 1 \<and> 1 / 1000 \<le> cap_fps \<and> cap_fps \<le> 1000"
    then have "0 < cap_fps"
      by simp
    with a delay_accuracy [of cap_fps] show "\<exists>d. getDelayMs cap_fps opts = Finite d
         \<and> \<bar>d - 1000 / cap_fps\<bar> \<le> 1000 / cap_fps / 2 ^ 53"
      by (simp add: getDelayMs_def)
  qed
  have c6: "framerate opts = - 1 \<and> cap_fps \<le> 0 \<longrightarrow>
      getDelayMs cap_fps opts = fl (1000 / 30)
      \<and> (\<exists>d. getDelayMs cap_fps opts = Finite d \<and> \<bar>d - 1000 / 30\<bar> \<le> 1000 / 30 / 2 ^ 53)"
    using delay_accuracy [of 30] by (simp add: getDelayMs_def DEFAULT_FRAMERATE_def)
  show ?thesis
    using c1 c2 c3 c4 c5 c6 by (intro conjI) assumption+
qed

theorem delay_derivation_witness:
  "(25::int) \<noteq> - 1 \<and> (25::int) \<noteq> 0 \<and> (1::int) \<le> 25 \<and> (25::int) \<le> 120
   \<and> getDelayMs 0 \<lparr>videoPath = ''v'', colorMode = None_mode, targetHeight = 60,
        targetWidth = 0, framerate = 25\<rparr> = Finite 40
   \<and> (0::rat) \<le> 0
   \<and> getDelayMs 0 \<lparr>videoPath = ''v'', colorMode = None_mode, targetHeight = 60,
        targetWidth = 0, framerate = - 1\<rparr> = Finite (4691249611844267 / 2 ^ 47)
   \<and> (0::rat) < 24
   \<and> getDelayMs 24 \<lparr>videoPath = ''v'', colorMode = None_mode, targetHeight = 60,
        targetWidth = 0, framerate = - 1\<rparr> = fl (1000 / 24)"
proof -
  let ?o = "\<lparr>videoPath = ''v'', colorMode = None_mode, targetHeight = 60,
        targetWidth = 0, framerate = 25\<rparr>"
  let ?n = "\<lparr>videoPath = ''v'', colorMode = None_mode, targetHeight = 60,
        targetWidth = 0, framerate = - 1\<rparr>"
  have "getDelayMs 0 ?o = Finite 40"
    using delay_derivation [of ?o 0, THEN conjunct2, THEN conjunct2, THEN conjunct1] by simp
  moreover have "getDelayMs 0 ?n = fl (1000 / 30)"
    using delay_derivation [of ?n 0, THEN conjunct2, THEN conjunct2, THEN conjunct2,
        THEN conjunct2, THEN conjunct2]
    by simp
  then have "getDelayMs 0 ?n = Finite (4691249611844267 / 2 ^ 47)"
    by (simp only: fl_1000_30)
  moreover have "getDelayMs 24 ?n = fl (1000 / 24)"
    using delay_derivation [of ?n 24, THEN conjunct2, THEN conjunct2, THEN conjunct2,
        THEN conjunct1]
    by simp
  ultimately show ?thesis
    by simp
qed

section \<open>The duration slept\<close>

lemma rate_sleep:
  assumes "1 \<le> r" "r < 2 ^ 31"
  shows "static_cast_int (ddiv (Finite 1000) (of_int r)) = Some (1000 div r)"
proof -
  define q where "q = 1000 div r"
  define m where "m = 1000 mod r"
  have R: "(0::rat) < of_int r"
    using assms(1) by simp
  have qm: "1000 = q * r + m" "0 \<le> m" "m < r"
    using assms(1) by (simp_all add: q_def m_def)
  have q0: "0 \<le> q"
    using assms(1) by (simp add: q_def pos_imp_zdiv_nonneg_iff)
  then have "q * 1 \<le> q * r"
    using assms(1) by (intro mult_left_mono) simp_all
  with qm q0 have q: "0 \<le> q" "q \<le> 1000"
    by simp_all
  have "(1000::rat) = of_int (q * r + m)"
    using qm(1) by (metis of_int_numeral)
  then have x: "1000 / of_int r = of_int q + of_int m / (of_int r :: rat)"
    using R by (simp add: field_simps)
  have d: "ddiv (Finite 1000) (of_int r) = fl (1000 / of_int r)"
    using assms(1) by simp
  show ?thesis
  proof (cases "m = 0")
    case True
    then have "1000 / of_int r = (of_int q :: rat)"
      using x by simp
    moreover have "fl (of_int q) = Finite (of_int q)"
      using q by (intro fl_of_int) simp
    moreover have "static_cast_int (Finite (of_int q)) = Some q"
      using q by (intro static_cast_int_floor) simp_all
    ultimately show ?thesis
      unfolding d q_def by simp
  next
    case False
    with qm have m: "1 \<le> m" "m \<le> r - 1"
      by simp_all
    then have "(of_int 1 :: rat) \<le> of_int m" "(of_int m :: rat) \<le> of_int (r - 1)"
      by (simp_all only: of_int_le_iff)
    then have M: "(1::rat) \<le> of_int m" "(of_int m :: rat) \<le> of_int r - 1"
      by simp_all
    define x :: rat where "x = 1000 / of_int r"
    have xq: "x = of_int q + of_int m / of_int r"
      unfolding x_def by (rule x)
    have rr: "(of_int r :: rat) \<le> 2 ^ 31"
      using assms(2) by (simp add: of_int_le_numeral_power_cancel_iff)
    have "(1000::rat) / 2 ^ 31 \<le> x"
      unfolding x_def using R rr by (intro divide_left_mono) simp_all
    moreover have "(2::rat) powi (- 1022) \<le> 1000 / 2 ^ 31"
      by simp
    ultimately have lo: "2 powi (- 1022) \<le> x"
      by linarith
    have "x \<le> 1000 / 1"
      unfolding x_def using assms(1) by (intro divide_left_mono) simp_all
    then have hi: "x \<le> 2 ^ 1000"
      by simp
    from fl_rel [OF lo hi] obtain v where
      v: "fl x = Finite v" "x * (1 - 1 / 2 ^ 53) \<le> v" "v \<le> x * (1 + 1 / 2 ^ 53)"
      by blast
    have small: "x * (1 / 2 ^ 53) < 1 / of_int r"
      unfolding x_def using R by (simp add: field_simps)
    have frac: "1 / of_int r \<le> of_int m / (of_int r :: rat)"
      "of_int m / (of_int r :: rat) \<le> 1 - 1 / of_int r"
      using R M by (simp_all add: field_simps)
    have v2: "x - x * (1 / 2 ^ 53) \<le> v"
      using v(2) by (simp add: algebra_simps)
    have v3: "v \<le> x + x * (1 / 2 ^ 53)"
      using v(3) by (simp add: algebra_simps)
    have "of_int q \<le> v"
      using v2 small frac(1) xq by linarith
    moreover have "v < of_int q + 1"
      using v3 small frac(2) xq by linarith
    ultimately have "static_cast_int (Finite v) = Some q"
      using q by (intro static_cast_int_floor) simp_all
    then show ?thesis
      unfolding d x_def [symmetric] v(1) q_def .
  qed
qed

lemma floor_1000_div: "\<lfloor>1000 / of_int r :: rat\<rfloor> = 1000 div r"
proof -
  have "1000 / of_int r = (of_int 1000 :: rat) / of_int r"
    by simp
  then show ?thesis
    by (simp only: floor_divide_of_int_eq)
qed

text \<open>
  Claim C9. The duration that playback sleeps after each frame is the delay truncated to
  a whole number of milliseconds, the \<open>double\<close> being cast to \<open>int\<close>. For an integer
  frame rate \<open>r\<close> the sleep is \<open>floor(1000 / r)\<close> milliseconds, which is the integer
  quotient \<open>1000 div r\<close>: rounding the quotient to a double never moves it across an
  integer. With the default of 30 frames per second each frame sleeps 33 milliseconds.
\<close>

theorem sleep_truncated:
  "(static_cast_int delayMs = Some ms \<longrightarrow>
      animateAscii windows frames delayMs =
        Some (concat (map (\<lambda>frameStr. clearScreen windows @ [Write frameStr, Flush, Sleep ms])
                        frames)))
   \<and> (0 \<le> x \<and> x < 2 ^ 31 \<longrightarrow> static_cast_int (Finite x) = Some \<lfloor>x\<rfloor>)
   \<and> (1 \<le> framerate opts \<and> framerate opts < 2 ^ 31 \<longrightarrow>
        static_cast_int (getDelayMs cap_fps opts) = Some \<lfloor>1000 / of_int (framerate opts) :: rat\<rfloor>
        \<and> \<lfloor>1000 / of_int (framerate opts) :: rat\<rfloor> = 1000 div framerate opts)
   \<and> (framerate opts = - 1 \<and> cap_fps \<le> 0 \<longrightarrow>
        static_cast_int (getDelayMs cap_fps opts) = Some 33)
   \<and> (framerate opts = 30 \<longrightarrow> static_cast_int (getDelayMs cap_fps opts) = Some 33)"
proof -
  have c1: "static_cast_int delayMs = Some ms \<longrightarrow>
      animateAscii windows frames delayMs =
        Some (concat (map (\<lambda>frameStr. clearScreen windows @ [Write frameStr, Flush, Sleep ms])
                        frames))"
    using animateAscii_trace by blast
  have c2: "0 \<le> x \<and> x < 2 ^ 31 \<longrightarrow> static_cast_int (Finite x) = Some \<lfloor>x\<rfloor>"
    using static_cast_int_nonneg by blast
  have c3: "1 \<le> framerate opts \<and> framerate opts < 2 ^ 31 \<longrightarrow>
        static_cast_int (getDelayMs cap_fps opts) = Some \<lfloor>1000 / of_int (framerate opts) :: rat\<rfloor>
        \<and> \<lfloor>1000 / of_int (framerate opts) :: rat\<rfloor> = 1000 div framerate opts"
  proof
    assume r: "1 \<le> framerate opts \<and> framerate opts < 2 ^ 31"
    then have "static_cast_int (ddiv (Finite 1000) (of_int (framerate opts))) =
        Some (1000 div framerate opts)"
      by (intro rate_sleep) simp_all
    moreover have "getDelayMs cap_fps opts = ddiv (Finite 1000) (of_int (framerate opts))"
      using r by (simp add: getDelayMs_def)
    ultimately show "static_cast_int (getDelayMs cap_fps opts) =
          Some \<lfloor>1000 / of_int (framerate opts) :: rat\<rfloor>
        \<and> \<lfloor>1000 / of_int (framerate opts) :: rat\<rfloor> = 1000 div framerate opts"
      by (simp only: floor_1000_div)
  qed
  have thirty: "static_cast_int (ddiv (Finite 1000) 30) = Some 33"
    using rate_sleep [of 30] by simp
  have c4: "framerate opts = - 1 \<and> cap_fps \<le> 0 \<longrightarrow>
        static_cast_int (getDelayMs cap_fps opts) = Some 33"
    using thirty by (simp add: getDelayMs_def DEFAULT_FRAMERATE_def)
  have c5: "framerate opts = 30 \<longrightarrow> static_cast_int (getDelayMs cap_fps opts) = Some 33"
    using thirty by (simp add: getDelayMs_def)
  show ?thesis
    using c1 c2 c3 c4 c5 by (intro conjI) assumption+
qed

theorem sleep_truncated_witness:
  "(1::int) \<le> 30 \<and> (30::int) < 2 ^ 31
   \<and> static_cast_int (getDelayMs 0 \<lparr>videoPath = ''v'', colorMode = None_mode, targetHeight = 60,
        targetWidth = 0, framerate = 30\<rparr>) = Some 33
   \<and> (1000::int) div 30 = 33
   \<and> animateAscii False [''@'']
        (getDelayMs 0 \<lparr>videoPath = ''v'', colorMode = None_mode, targetHeight = 60,
           targetWidth = 0, framerate = 30\<rparr>) =
       Some [Write (ESC # ''[2J'' @ ESC # ''[H''), Flush, Write ''@'', Flush, Sleep 33]
   \<and> (0::rat) \<le> 0
   \<and> static_cast_int (getDelayMs 0 \<lparr>videoPath = ''v'', colorMode = None_mode, targetHeight = 60,
        targetWidth = 0, framerate = - 1\<rparr>) = Some 33"
proof -
  let ?o = "\<lparr>videoPath = ''v'', colorMode = None_mode, targetHeight = 60,
        targetWidth = 0, framerate = 30\<rparr>"
  let ?n = "\<lparr>videoPath = ''v'', colorMode = None_mode, targetHeight = 60,
        targetWidth = 0, framerate = - 1\<rparr>"
  note a = sleep_truncated [where opts = ?o and cap_fps = 0 and delayMs = "getDelayMs 0 ?o"
      and ms = 33 and windows = False and frames = "[''@'']" and x = 0]
  note b = sleep_truncated [where opts = ?n and cap_fps = 0 and delayMs = "getDelayMs 0 ?n"
      and ms = 33 and windows = False and frames = "[''@'']" and x = 0]
  from a [THEN conjunct2, THEN conjunct2, THEN conjunct2, THEN conjunct2]
  have s: "static_cast_int (getDelayMs 0 ?o) = Some 33"
    by simp
  from b [THEN conjunct2, THEN conjunct2, THEN conjunct2, THEN conjunct1]
  have t: "static_cast_int (getDelayMs 0 ?n) = Some 33"
    by simp
  from a [THEN conjunct1] s have "animateAscii False [''@''] (getDelayMs 0 ?o) =
      Some (concat (map (\<lambda>frameStr. clearScreen False @ [Write frameStr, Flush, Sleep 33])
                      [''@'']))"
    by blast
  then show ?thesis
    using s t by (simp add: clearScreen_def)
qed

end
